theory Spec2Isabelle
  imports Complex_Main
begin

section \<open>Dense tensors\<close>

text \<open>
  The kernels of \<^verbatim>\<open>rwkv_inner.py\<close> and \<^verbatim>\<open>rwkv5_1.py\<close> work on dense torch
  tensors.  A tensor is its shape together with its elements in row-major order.
  Elements are real numbers: the arithmetic of the model is exact, so rounding, overflow
  and the difference between float32 and float64 are outside the model, and the casts
  \<^verbatim>\<open>.float()\<close> and \<^verbatim>\<open>.to(dtype)\<close> are the identity.  Strides are not
  modelled either: a \<^verbatim>\<open>view\<close> succeeds whenever the element counts agree.
  Every exception the source can raise is a value \<open>Inl e\<close>.
\<close>

datatype error = RuntimeError | ValueError | IndexError | ZeroDivisionError | AssertionError

record tensor =
  dims :: "nat list"
  elems :: "real list"

definition bnd :: "error + 'a \<Rightarrow> ('a \<Rightarrow> error + 'b) \<Rightarrow> error + 'b" where
  "bnd m f = (case m of Inl e \<Rightarrow> Inl e | Inr x \<Rightarrow> f x)"

text \<open>Row-major offset of a multi-index, and the multi-index of an offset.\<close>

fun ravel :: "nat list \<Rightarrow> nat list \<Rightarrow> nat" where
  "ravel (d # ds) (i # js) = i * prod_list ds + ravel ds js"
| "ravel _ _ = 0"

fun unravel :: "nat list \<Rightarrow> nat \<Rightarrow> nat list" where
  "unravel [] n = []"
| "unravel (d # ds) n = (n div prod_list ds) # unravel ds (n mod prod_list ds)"

definition elt :: "tensor \<Rightarrow> nat list \<Rightarrow> real" where
  "elt t idx = elems t ! ravel (dims t) idx"

definition mk :: "nat list \<Rightarrow> (nat list \<Rightarrow> real) \<Rightarrow> tensor" where
  "mk ds f = \<lparr>dims = ds, elems = map (\<lambda>n. f (unravel ds n)) [0..<prod_list ds]\<rparr>"

definition wf :: "tensor \<Rightarrow> bool" where
  "wf t \<longleftrightarrow> length (elems t) = prod_list (dims t)"

definition valid :: "nat list \<Rightarrow> nat list \<Rightarrow> bool" where
  "valid ds idx \<longleftrightarrow> list_all2 (<) idx ds"

subsection \<open>Broadcasting\<close>

text \<open>
  Shapes are aligned at their last dimension; two sizes are compatible when they are
  equal or one of them is 1.
\<close>

fun bshape_rev :: "nat list \<Rightarrow> nat list \<Rightarrow> error + nat list" where
  "bshape_rev [] ys = Inr ys"
| "bshape_rev xs [] = Inr xs"
| "bshape_rev (x # xs) (y # ys) =
     (if x = y \<or> y = 1 then bnd (bshape_rev xs ys) (\<lambda>zs. Inr (x # zs))
      else if x = 1 then bnd (bshape_rev xs ys) (\<lambda>zs. Inr (y # zs))
      else Inl RuntimeError)"

definition bshape :: "nat list \<Rightarrow> nat list \<Rightarrow> error + nat list" where
  "bshape xs ys = bnd (bshape_rev (rev xs) (rev ys)) (\<lambda>zs. Inr (rev zs))"

text \<open>The index of an operand of shape \<open>ds\<close> that the result index \<open>idx\<close> reads.\<close>

definition bidx :: "nat list \<Rightarrow> nat list \<Rightarrow> nat list" where
  "bidx ds idx =
     map2 (\<lambda>d i. if d = 1 then 0 else i) ds (drop (length idx - length ds) idx)"

definition binop :: "(real \<Rightarrow> real \<Rightarrow> real) \<Rightarrow> tensor \<Rightarrow> tensor \<Rightarrow> error + tensor" where
  "binop f a b =
     bnd (bshape (dims a) (dims b)) (\<lambda>ds.
       Inr (mk ds (\<lambda>idx. f (elt a (bidx (dims a) idx)) (elt b (bidx (dims b) idx)))))"

definition add :: "tensor \<Rightarrow> tensor \<Rightarrow> error + tensor" where
  "add = binop (+)"

definition sub :: "tensor \<Rightarrow> tensor \<Rightarrow> error + tensor" where
  "sub = binop (-)"

definition mul :: "tensor \<Rightarrow> tensor \<Rightarrow> error + tensor" where
  "mul = binop (*)"

definition unop :: "(real \<Rightarrow> real) \<Rightarrow> tensor \<Rightarrow> tensor" where
  "unop f a = \<lparr>dims = dims a, elems = map f (elems a)\<rparr>"

definition clamp :: "real \<Rightarrow> tensor \<Rightarrow> tensor" where
  "clamp lo = unop (max lo)"

definition log_t :: "tensor \<Rightarrow> tensor" where
  "log_t = unop ln"

definition exp_t :: "tensor \<Rightarrow> tensor" where
  "exp_t = unop exp"

definition zeros_like :: "tensor \<Rightarrow> tensor" where
  "zeros_like = unop (\<lambda>_. 0)"

subsection \<open>Shape operations\<close>

text \<open>
  \<^verbatim>\<open>t.view(*sizes)\<close>: the sizes are Python integers; one of them may be -1 and is
  then inferred, any other negative size is refused.
\<close>

definition view :: "tensor \<Rightarrow> int list \<Rightarrow> error + tensor" where
  "view t sizes =
     (let numel = prod_list (dims t) in
      if \<exists>s \<in> set sizes. s < - 1 then Inl RuntimeError
      else if length (filter (\<lambda>s. s = - 1) sizes) > 1 then Inl RuntimeError
      else if - 1 \<in> set sizes then
        (let p = prod_list (map nat (filter (\<lambda>s. s \<noteq> - 1) sizes)) in
         if p = 0 \<or> numel mod p \<noteq> 0 then Inl RuntimeError
         else Inr \<lparr>dims = map (\<lambda>s. if s = - 1 then numel div p else nat s) sizes,
                   elems = elems t\<rparr>)
      else if prod_list (map nat sizes) = numel
        then Inr \<lparr>dims = map nat sizes, elems = elems t\<rparr>
      else Inl RuntimeError)"

text \<open>
  \<^verbatim>\<open>t.size(-j)\<close> is \<open>size_end j t\<close>, and \<^verbatim>\<open>t.size(0)\<close> is
  \<open>size_first t\<close>.
\<close>

definition size_end :: "nat \<Rightarrow> tensor \<Rightarrow> error + nat" where
  "size_end j t =
     (if length (dims t) < j then Inl IndexError else Inr (dims t ! (length (dims t) - j)))"

definition size_first :: "tensor \<Rightarrow> error + nat" where
  "size_first t = (if dims t = [] then Inl IndexError else Inr (hd (dims t)))"

text \<open>
  \<^verbatim>\<open>t.mT\<close>: the last two dimensions exchanged.  A tensor of rank 0 is returned as it
  is, a tensor of rank 1 is refused.
\<close>

definition swap_last2 :: "'a list \<Rightarrow> 'a list" where
  "swap_last2 xs = (let n = length xs in take (n - 2) xs @ [xs ! (n - 1), xs ! (n - 2)])"

definition mT :: "tensor \<Rightarrow> error + tensor" where
  "mT t =
     (if length (dims t) = 0 then Inr t
      else if length (dims t) = 1 then Inl RuntimeError
      else Inr (mk (swap_last2 (dims t)) (\<lambda>idx. elt t (swap_last2 idx))))"

text \<open>\<^verbatim>\<open>t.unsqueeze(d)\<close> for a non-negative position \<open>d\<close>.\<close>

definition unsqueeze :: "nat \<Rightarrow> tensor \<Rightarrow> error + tensor" where
  "unsqueeze d t =
     (if d > length (dims t) then Inl IndexError
      else Inr \<lparr>dims = take d (dims t) @ [1] @ drop d (dims t), elems = elems t\<rparr>)"

text \<open>
  Python slice bounds \<^verbatim>\<open>lo:hi\<close> on a dimension of size \<open>n\<close>: the first index kept
  and the number of indices kept.
\<close>

definition py_slice :: "nat \<Rightarrow> int \<Rightarrow> int \<Rightarrow> nat \<times> nat" where
  "py_slice n lo hi =
     (let norm = (\<lambda>i. if i < 0 then max 0 (i + int n) else min i (int n));
          a = norm lo; b = norm hi
      in (nat a, nat (b - a)))"

text \<open>
  \<^verbatim>\<open>t[..., lo:hi, :]\<close> is \<open>slice_end 2 t lo hi\<close> and
  \<^verbatim>\<open>t[..., lo:hi, :, :]\<close> is \<open>slice_end 3 t lo hi\<close>: the sliced dimension is counted
  from the end.
\<close>

definition slice_end :: "nat \<Rightarrow> tensor \<Rightarrow> int \<Rightarrow> int \<Rightarrow> error + tensor" where
  "slice_end j t lo hi =
     (if length (dims t) < j then Inl IndexError
      else
        (let p = length (dims t) - j;
             (a, len) = py_slice (dims t ! p) lo hi
         in Inr (mk ((dims t)[p := len]) (\<lambda>idx. elt t (idx[p := idx ! p + a])))))"

text \<open>
  \<^verbatim>\<open>t[..., lo:hi, :, :] = rhs\<close>: the right-hand side must expand to the shape of the
  slice.
\<close>

definition expandable :: "nat list \<Rightarrow> nat list \<Rightarrow> bool" where
  "expandable src tgt \<longleftrightarrow>
     length src \<le> length tgt \<and>
     list_all2 (\<lambda>s t. s = t \<or> s = 1) src (drop (length tgt - length src) tgt)"

definition setitem_end :: "nat \<Rightarrow> tensor \<Rightarrow> int \<Rightarrow> int \<Rightarrow> tensor \<Rightarrow> error + tensor" where
  "setitem_end j t lo hi rhs =
     (if length (dims t) < j then Inl IndexError
      else
        (let p = length (dims t) - j;
             (a, len) = py_slice (dims t ! p) lo hi
         in if \<not> expandable (dims rhs) ((dims t)[p := len]) then Inl RuntimeError
            else Inr (mk (dims t) (\<lambda>idx.
                   if a \<le> idx ! p \<and> idx ! p < a + len
                   then elt rhs (bidx (dims rhs) (idx[p := idx ! p - a]))
                   else elt t idx))))"

text \<open>
  \<^verbatim>\<open>torch.cat([a, b], dim=-2)\<close>.  The operands of the source have rank 5, so torch's
  exemption for empty one-dimensional operands never applies.
\<close>

definition cat2 :: "tensor \<Rightarrow> tensor \<Rightarrow> error + tensor" where
  "cat2 a b =
     (if length (dims a) < 2 \<or> length (dims a) \<noteq> length (dims b) then Inl RuntimeError
      else
        (let p = length (dims a) - 2; n = dims a ! p in
         if (dims a)[p := 0] \<noteq> (dims b)[p := 0] then Inl RuntimeError
         else Inr (mk ((dims a)[p := n + dims b ! p]) (\<lambda>idx.
                if idx ! p < n then elt a idx else elt b (idx[p := idx ! p - n])))))"

text \<open>\<^verbatim>\<open>torch.cat(ts, dim=-2)\<close> of a Python list.\<close>

fun cat_list :: "tensor list \<Rightarrow> error + tensor" where
  "cat_list [] = Inl ValueError"
| "cat_list [t] = (if length (dims t) < 2 then Inl IndexError else Inr t)"
| "cat_list (t # ts) = bnd (cat_list ts) (\<lambda>rest. cat2 t rest)"

text \<open>
  \<^verbatim>\<open>t.unbind(dim=-3)\<close> and \<^verbatim>\<open>torch.stack(ts, dim=2)\<close>.  The position 2 is
  checked against the rank of the first tensor before the shapes are compared.
\<close>

definition unbind3 :: "tensor \<Rightarrow> error + tensor list" where
  "unbind3 t =
     (if length (dims t) < 3 then Inl IndexError
      else
        (let p = length (dims t) - 3 in
         Inr (map (\<lambda>i. mk (take p (dims t) @ drop (Suc p) (dims t))
                          (\<lambda>idx. elt t (take p idx @ [i] @ drop p idx)))
                  [0..<dims t ! p])))"

definition stack2 :: "tensor list \<Rightarrow> error + tensor" where
  "stack2 ts =
     (case ts of
        [] \<Rightarrow> Inl RuntimeError
      | t # _ \<Rightarrow>
          if length (dims t) < 2 then Inl IndexError
          else if \<exists>s \<in> set ts. dims s \<noteq> dims t then Inl RuntimeError
          else Inr (mk (take 2 (dims t) @ [length ts] @ drop 2 (dims t))
                     (\<lambda>idx. elt (ts ! (idx ! 2)) (take 2 idx @ drop 3 idx))))"

text \<open>Python list indexing with a non-negative index.\<close>

definition getitem :: "'a list \<Rightarrow> nat \<Rightarrow> error + 'a" where
  "getitem xs i = (if i < length xs then Inr (xs ! i) else Inl IndexError)"

subsection \<open>Reductions and matrix products\<close>

text \<open>\<^verbatim>\<open>t.cumsum(dim=-2)\<close> and \<^verbatim>\<open>t.sum(dim=-2, keepdim=True)\<close>.\<close>

definition cumsum2 :: "tensor \<Rightarrow> error + tensor" where
  "cumsum2 t =
     (if length (dims t) < 2 then Inl IndexError
      else
        (let p = length (dims t) - 2 in
         Inr (mk (dims t) (\<lambda>idx.
           sum_list (map (\<lambda>j. elt t (idx[p := j])) [0..<Suc (idx ! p)])))))"

definition sum2_keepdim :: "tensor \<Rightarrow> error + tensor" where
  "sum2_keepdim t =
     (if length (dims t) < 2 then Inl IndexError
      else
        (let p = length (dims t) - 2 in
         Inr (mk ((dims t)[p := 1]) (\<lambda>idx.
           sum_list (map (\<lambda>j. elt t (idx[p := j])) [0..<dims t ! p])))))"

text \<open>
  \<^verbatim>\<open>a @ b\<close> (\<^verbatim>\<open>torch.matmul\<close>): batch dimensions broadcast; a one-dimensional
  operand is a row vector on the left and a column vector on the right, and its added
  dimension is removed from the result.
\<close>

definition bmm :: "tensor \<Rightarrow> tensor \<Rightarrow> error + tensor" where
  "bmm a b =
     (let ra = length (dims a); rb = length (dims b);
          m = dims a ! (ra - 2); n = dims a ! (ra - 1);
          n' = dims b ! (rb - 2); q = dims b ! (rb - 1);
          ba = take (ra - 2) (dims a); bb = take (rb - 2) (dims b)
      in if n \<noteq> n' then Inl RuntimeError
         else bnd (bshape ba bb) (\<lambda>bs.
           Inr (mk (bs @ [m, q]) (\<lambda>idx.
             (let bi = take (length bs) idx;
                  i = idx ! length bs; l = idx ! Suc (length bs)
              in sum_list (map (\<lambda>j. elt a (bidx ba bi @ [i, j]) * elt b (bidx bb bi @ [j, l]))
                               [0..<n]))))))"

definition matmul :: "tensor \<Rightarrow> tensor \<Rightarrow> error + tensor" where
  "matmul a b =
     (let ra = length (dims a); rb = length (dims b) in
      if ra = 0 \<or> rb = 0 then Inl RuntimeError
      else
        (let a' = (if ra = 1 then a\<lparr>dims := 1 # dims a\<rparr> else a);
             b' = (if rb = 1 then b\<lparr>dims := dims b @ [1]\<rparr> else b)
         in bnd (bmm a' b') (\<lambda>c.
              (let n = length (dims c);
                   ds = (if ra = 1 then take (n - 2) (dims c) @ drop (n - 1) (dims c)
                         else dims c);
                   ds' = (if rb = 1 then butlast ds else ds)
               in Inr (c\<lparr>dims := ds'\<rparr>)))))"

text \<open>\<^verbatim>\<open>t.tril(-1)\<close>: only the entries strictly below the diagonal are kept.\<close>

definition tril_m1 :: "tensor \<Rightarrow> error + tensor" where
  "tril_m1 t =
     (let n = length (dims t) in
      if n < 2 then Inl RuntimeError
      else Inr (mk (dims t) (\<lambda>idx. if idx ! (n - 1) < idx ! (n - 2) then elt t idx else 0)))"

text \<open>\<^verbatim>\<open>t.diag_embed()\<close>: the last dimension becomes the diagonal of a square matrix.\<close>

definition diag_embed :: "tensor \<Rightarrow> error + tensor" where
  "diag_embed t =
     (let n = length (dims t) in
      if n = 0 then Inl IndexError
      else Inr (mk (dims t @ [last (dims t)]) (\<lambda>idx.
             if idx ! (n - 1) = idx ! n then elt t (butlast idx) else 0)))"

text \<open>
  \<^verbatim>\<open>torch.einsum('bhnztk,bhnztk->bhnzt', a, b)\<close>: both operands have six dimensions,
  equal or broadcast from size 1; the products are summed over the last dimension.
\<close>

definition einsum_bhnztk :: "tensor \<Rightarrow> tensor \<Rightarrow> error + tensor" where
  "einsum_bhnztk a b =
     (if length (dims a) \<noteq> 6 \<or> length (dims b) \<noteq> 6 then Inl RuntimeError
      else bnd (bshape (dims a) (dims b)) (\<lambda>ds.
        Inr (mk (butlast ds) (\<lambda>idx.
          sum_list (map (\<lambda>j. elt a (bidx (dims a) (idx @ [j])) * elt b (bidx (dims b) (idx @ [j])))
                        [0..<last ds])))))"

section \<open>The recurrent reference engine\<close>

text \<open>
  \<^verbatim>\<open>rwkv5_1_recurrent\<close> of \<^verbatim>\<open>rwkv5_1.py\<close>.  The loop over \<^verbatim>\<open>range(L)\<close> is
  a recursion over the list of its time steps; \<open>out\<close> is the Python list of the
  outputs so far.
\<close>

fun recurrent_loop ::
  "tensor \<Rightarrow> tensor \<Rightarrow> tensor \<Rightarrow> tensor \<Rightarrow> tensor \<Rightarrow> nat list \<Rightarrow> tensor list \<Rightarrow> tensor
     \<Rightarrow> error + (tensor list \<times> tensor)" where
  "recurrent_loop r_in k_in v_in w_in u [] out kv_state = Inr (out, kv_state)"
| "recurrent_loop r_in k_in v_in w_in u (t # ts) out kv_state =
     bnd (slice_end 2 r_in (int t) (int t + 1)) (\<lambda>r.
     bnd (slice_end 2 k_in (int t) (int t + 1)) (\<lambda>k.
     bnd (slice_end 2 v_in (int t) (int t + 1)) (\<lambda>v.
     bnd (slice_end 2 w_in (int t) (int t + 1)) (\<lambda>w.
     bnd (mT k) (\<lambda>k_mT.
     bnd (matmul k_mT v) (\<lambda>kv.
     bnd (mT u) (\<lambda>u_mT.
     bnd (mul u_mT kv) (\<lambda>ukv.
     bnd (add kv_state ukv) (\<lambda>s.
     bnd (matmul r s) (\<lambda>out_t.
     bnd (mT w) (\<lambda>w_mT.
     bnd (mul w_mT kv_state) (\<lambda>ws.
     bnd (add ws kv) (\<lambda>kv_state'.
     recurrent_loop r_in k_in v_in w_in u ts (out @ [out_t]) kv_state')))))))))))))"

definition rwkv5_1_recurrent ::
  "tensor \<Rightarrow> tensor \<Rightarrow> tensor \<Rightarrow> tensor \<Rightarrow> tensor \<Rightarrow> tensor \<Rightarrow> error + (tensor \<times> tensor)" where
  "rwkv5_1_recurrent r_in k_in v_in w_in u kv_state =
     bnd (size_end 2 r_in) (\<lambda>L.
     bnd (recurrent_loop r_in k_in v_in w_in u [0..<L] [] kv_state) (\<lambda>(out, kv_state').
     bnd (cat_list out) (\<lambda>out'.
     Inr (out', kv_state'))))"

section \<open>The chunked engine\<close>

text \<open>
  \<^verbatim>\<open>rwkv_inner\<close> of \<^verbatim>\<open>rwkv_inner.py\<close>.  \<open>chunk_len\<close> is a Python integer and
  \<open>precision_dtype\<close> a torch dtype.  Python's \<^verbatim>\<open>%\<close> and \<^verbatim>\<open>//\<close> round towards
  minus infinity, as \<open>mod\<close> and \<open>div\<close> on \<open>int\<close> do, and raise on a zero divisor.
\<close>

datatype dtype = Float16 | BFloat16 | Float32 | Float64

definition py_mod :: "int \<Rightarrow> int \<Rightarrow> error + int" where
  "py_mod a b = (if b = 0 then Inl ZeroDivisionError else Inr (a mod b))"

definition py_floordiv :: "int \<Rightarrow> int \<Rightarrow> error + int" where
  "py_floordiv a b = (if b = 0 then Inl ZeroDivisionError else Inr (a div b))"

text \<open>
  The floor of the decay, lines 37 to 40 of the source: 0.005 for float32 and 1e-10 for
  float64.  The assertion before it admits no other dtype.
\<close>

definition precision_min_val :: "dtype \<Rightarrow> real" where
  "precision_min_val precision_dtype =
     (if precision_dtype = Float32 then 0.005 else 1 / 10 ^ 10)"

text \<open>The loop \<^verbatim>\<open>for i in range(N)\<close> that computes the state entering each chunk.\<close>

fun state_loop ::
  "tensor list \<Rightarrow> tensor list \<Rightarrow> nat list \<Rightarrow> tensor list \<Rightarrow> tensor
     \<Rightarrow> error + (tensor list \<times> tensor)" where
  "state_loop ws wkv [] states kv_state = Inr (states, kv_state)"
| "state_loop ws wkv (i # is) states kv_state =
     bnd (getitem ws i) (\<lambda>ws_i.
     bnd (mul kv_state ws_i) (\<lambda>decayed.
     bnd (getitem wkv i) (\<lambda>wkv_i.
     bnd (add decayed wkv_i) (\<lambda>kv_state'.
     state_loop ws wkv is (states @ [kv_state]) kv_state'))))"

definition rwkv_inner ::
  "tensor \<Rightarrow> tensor \<Rightarrow> tensor \<Rightarrow> tensor \<Rightarrow> tensor \<Rightarrow> tensor \<Rightarrow> int \<Rightarrow> dtype
     \<Rightarrow> error + (tensor \<times> tensor)" where
  "rwkv_inner r k v w u kv_state chunk_len precision_dtype =
     (case dims k of
        [B, H, L, K] \<Rightarrow>
          bnd (size_end 1 v) (\<lambda>V.
          if L = 1 then
            bnd (matmul k v) (\<lambda>kv.
            bnd (mul u kv) (\<lambda>ukv.
            bnd (add kv_state ukv) (\<lambda>s.
            bnd (matmul r s) (\<lambda>out.
            bnd (mul w kv_state) (\<lambda>ws.
            bnd (add ws kv) (\<lambda>kv_state'.
            Inr (out, kv_state')))))))
          else
            bnd (py_mod (int L) chunk_len) (\<lambda>m.
            let T = (if m \<noteq> 0 then 1 else chunk_len) in
            bnd (py_floordiv (int L) T) (\<lambda>N.
            if \<not> (precision_dtype = Float32 \<or> precision_dtype = Float64)
            then Inl AssertionError
            else
              let w = clamp (precision_min_val precision_dtype) w;
                  w_log = log_t w
              in
              bnd (size_first w) (\<lambda>Bw.
              bnd (view w_log [int Bw, int H, N, T, int K]) (\<lambda>wc_log.
              bnd (cumsum2 wc_log) (\<lambda>wc_log_cum.
              bnd (slice_end 2 wc_log_cum 0 1) (\<lambda>first.
              bnd (slice_end 2 wc_log_cum 0 (- 1)) (\<lambda>front.
              bnd (cat2 (zeros_like first) front) (\<lambda>shifted_wc_log_cum.
              bnd (sum2_keepdim wc_log) (\<lambda>ws.
              bnd (sub ws wc_log_cum) (\<lambda>w_inter.
              bnd (sub wc_log_cum wc_log) (\<lambda>w_intra.
              bnd (mT ws) (\<lambda>ws_mT.
              bnd (unbind3 (exp_t ws_mT)) (\<lambda>ws.
              let w_inter = exp_t w_inter;
                  w_intra = exp_t w_intra
              in
              bnd (view r [int B, int H, N, T, int K]) (\<lambda>r.
              bnd (view k [int B, int H, N, T, int K]) (\<lambda>k.
              bnd (view v [int B, int H, N, T, int V]) (\<lambda>v.
              bnd (unsqueeze 2 u) (\<lambda>u.
              bnd (view wc_log_cum [int Bw, int H, N, 2, T div 2, int K]) (\<lambda>wc_log_cum.
              bnd (view shifted_wc_log_cum [int Bw, int H, N, 2, T div 2, int K])
                (\<lambda>shifted_wc_log_cum.
              bnd (slice_end 2 shifted_wc_log_cum (T div 4) (T div 4 + 1)) (\<lambda>wc_log_offset.
              bnd (view u [1, int H, 1, 1, 1, int K]) (\<lambda>uu.
              bnd (sub shifted_wc_log_cum wc_log_offset) (\<lambda>d1.
              let rr_decay = exp_t d1 in
              bnd (sub wc_log_offset wc_log_cum) (\<lambda>d2.
              let kk_inv_decay = exp_t d2 in
              bnd (view r [int B, int H, N, 2, T div 2, int K]) (\<lambda>rr.
              bnd (view k [int B, int H, N, 2, T div 2, int K]) (\<lambda>kk.
              bnd (view v [int B, int H, N, 2, T div 2, int V]) (\<lambda>vv.
              bnd (mul rr rr_decay) (\<lambda>rd.
              bnd (mul kk kk_inv_decay) (\<lambda>kd.
              bnd (mT kd) (\<lambda>kd_mT.
              bnd (matmul rd kd_mT) (\<lambda>scores.
              bnd (tril_m1 scores) (\<lambda>a.
              bnd (mul uu kk) (\<lambda>uk.
              bnd (einsum_bhnztk rr uk) (\<lambda>bonus.
              bnd (diag_embed bonus) (\<lambda>bonus_diag.
              bnd (add a bonus_diag) (\<lambda>a.
              bnd (matmul a vv) (\<lambda>out.
              bnd (slice_end 3 rr 1 2) (\<lambda>rr.
              bnd (slice_end 3 rr_decay 1 2) (\<lambda>rr_decay.
              bnd (slice_end 3 kk 0 1) (\<lambda>kk.
              bnd (slice_end 3 wc_log_offset 1 2) (\<lambda>offset1.
              bnd (slice_end 3 wc_log_cum 0 1) (\<lambda>cum0.
              bnd (sub offset1 cum0) (\<lambda>d3.
              let kk_inv_decay = exp_t d3 in
              bnd (slice_end 3 vv 0 1) (\<lambda>vv.
              bnd (slice_end 3 out 1 2) (\<lambda>out1.
              bnd (mul rr rr_decay) (\<lambda>rd.
              bnd (mul kk kk_inv_decay) (\<lambda>kd.
              bnd (mT kd) (\<lambda>kd_mT.
              bnd (matmul rd kd_mT) (\<lambda>scores.
              bnd (matmul scores vv) (\<lambda>cross.
              bnd (add out1 cross) (\<lambda>out1.
              bnd (setitem_end 3 out 1 2 out1) (\<lambda>out.
              bnd (view out [int B, int H, N, T, int V]) (\<lambda>out.
              bnd (mul k w_inter) (\<lambda>kw.
              bnd (mT kw) (\<lambda>kw_mT.
              bnd (matmul kw_mT v) (\<lambda>wkv.
              bnd (unbind3 wkv) (\<lambda>wkv.
              bnd (state_loop ws wkv [0..<nat N] [] kv_state) (\<lambda>(states, kv_state').
              bnd (stack2 states) (\<lambda>states.
              bnd (mul r w_intra) (\<lambda>rw.
              bnd (matmul rw states) (\<lambda>carried.
              bnd (add out carried) (\<lambda>out.
              bnd (view out [int B, int H, int L, int V]) (\<lambda>out.
              Inr (out, kv_state'))))))))))))))))))))))))))))))))))))))))))))))))))))))))))))))))
      | _ \<Rightarrow> Inl ValueError)"

section \<open>Tensors given by their components\<close>

text \<open>
  \<open>mk4 a b c d F\<close> is the tensor of shape \<open>(a, b, c, d)\<close> whose component at
  \<open>(i0, i1, i2, i3)\<close> is \<open>F i0 i1 i2 i3\<close>, and \<open>comp4 t\<close> gives the components
  of a tensor of rank 4.  \<open>bd\<close> is the size two broadcast sizes give, \<open>bc d i\<close> the
  index read in a dimension of size \<open>d\<close>, and \<open>compat\<close> says that two sizes
  broadcast.
\<close>

definition mk4 :: "nat \<Rightarrow> nat \<Rightarrow> nat \<Rightarrow> nat \<Rightarrow> (nat \<Rightarrow> nat \<Rightarrow> nat \<Rightarrow> nat \<Rightarrow> real) \<Rightarrow> tensor" where
  "mk4 a b c d F = mk [a, b, c, d] (\<lambda>idx. F (idx ! 0) (idx ! 1) (idx ! 2) (idx ! 3))"

text \<open>The same for the ranks 5 and 6 of the chunked views.\<close>

definition mk5 ::
  "nat \<Rightarrow> nat \<Rightarrow> nat \<Rightarrow> nat \<Rightarrow> nat \<Rightarrow> (nat \<Rightarrow> nat \<Rightarrow> nat \<Rightarrow> nat \<Rightarrow> nat \<Rightarrow> real) \<Rightarrow> tensor" where
  "mk5 a b c d e F = mk [a, b, c, d, e] (\<lambda>idx. F (idx ! 0) (idx ! 1) (idx ! 2) (idx ! 3) (idx ! 4))"

definition mk6 ::
  "nat \<Rightarrow> nat \<Rightarrow> nat \<Rightarrow> nat \<Rightarrow> nat \<Rightarrow> nat
     \<Rightarrow> (nat \<Rightarrow> nat \<Rightarrow> nat \<Rightarrow> nat \<Rightarrow> nat \<Rightarrow> nat \<Rightarrow> real) \<Rightarrow> tensor" where
  "mk6 a b c d e f F =
     mk [a, b, c, d, e, f] (\<lambda>idx. F (idx ! 0) (idx ! 1) (idx ! 2) (idx ! 3) (idx ! 4) (idx ! 5))"

definition bd :: "nat \<Rightarrow> nat \<Rightarrow> nat" where
  "bd x y = (if x = 1 then y else x)"

definition bc :: "nat \<Rightarrow> nat \<Rightarrow> nat" where
  "bc d i = (if d = 1 then 0 else i)"

definition compat :: "nat \<Rightarrow> nat \<Rightarrow> bool" where
  "compat x y \<longleftrightarrow> x = y \<or> x = 1 \<or> y = 1"

definition comp4 :: "tensor \<Rightarrow> nat \<Rightarrow> nat \<Rightarrow> nat \<Rightarrow> nat \<Rightarrow> real" where
  "comp4 t i0 i1 i2 i3 = elt t [i0, i1, i2, i3]"

section \<open>The recurrence as the specification states it\<close>

text \<open>
  Section 4.1 of the specification, in components, for one batch entry \<open>b\<close> and one
  head \<open>h\<close>.  With \<open>kv_t = k[t]\<^sup>T @ v[t]\<close>, that is
  \<open>kv_t i j = k[t] i * v[t] j\<close>, the state before step \<open>t\<close> is \<open>spec_state \<dots> t\<close>:
  it starts as \<open>kv_state\<close>, and step \<open>t\<close> turns it into \<open>w[t] \<odot> kv_state + kv_t\<close>.
  The output of step \<open>t\<close> is \<open>r[t] @ (kv_state + u \<odot> kv_t)\<close>.
\<close>

fun spec_state ::
  "(nat \<Rightarrow> nat \<Rightarrow> nat \<Rightarrow> nat \<Rightarrow> real) \<Rightarrow> (nat \<Rightarrow> nat \<Rightarrow> nat \<Rightarrow> nat \<Rightarrow> real) \<Rightarrow>
   (nat \<Rightarrow> nat \<Rightarrow> nat \<Rightarrow> nat \<Rightarrow> real) \<Rightarrow> (nat \<Rightarrow> nat \<Rightarrow> nat \<Rightarrow> nat \<Rightarrow> real) \<Rightarrow>
   nat \<Rightarrow> nat \<Rightarrow> nat \<Rightarrow> nat \<Rightarrow> nat \<Rightarrow> real" where
  "spec_state Kf Vf W S 0 b h i j = S b h i j"
| "spec_state Kf Vf W S (Suc t) b h i j =
     W b h t i * spec_state Kf Vf W S t b h i j + Kf b h t i * Vf b h t j"

definition spec_out ::
  "nat \<Rightarrow> (nat \<Rightarrow> nat \<Rightarrow> nat \<Rightarrow> nat \<Rightarrow> real) \<Rightarrow> (nat \<Rightarrow> nat \<Rightarrow> nat \<Rightarrow> nat \<Rightarrow> real) \<Rightarrow>
   (nat \<Rightarrow> nat \<Rightarrow> nat \<Rightarrow> nat \<Rightarrow> real) \<Rightarrow> (nat \<Rightarrow> nat \<Rightarrow> nat \<Rightarrow> nat \<Rightarrow> real) \<Rightarrow>
   (nat \<Rightarrow> nat \<Rightarrow> real) \<Rightarrow> (nat \<Rightarrow> nat \<Rightarrow> nat \<Rightarrow> nat \<Rightarrow> real) \<Rightarrow>
   nat \<Rightarrow> nat \<Rightarrow> nat \<Rightarrow> nat \<Rightarrow> real" where
  "spec_out K R Kf Vf W U S b h t j =
     (\<Sum>i<K. R b h t i * (spec_state Kf Vf W S t b h i j + U h i * (Kf b h t i * Vf b h t j)))"

text \<open>
  The shapes the docstring of \<^verbatim>\<open>rwkv_inner\<close> expects: \<open>r\<close> and \<open>k\<close> of shape
  \<open>(B, H, L, K)\<close>, \<open>v\<close> of shape \<open>(B, H, L, V)\<close>, \<open>w\<close> of shape
  \<open>(B, H, L, K)\<close> or \<open>(1, H, L, K)\<close>, \<open>u\<close> of shape \<open>(1, H, 1, K)\<close> and
  \<open>kv_state\<close> of shape \<open>(B, H, K, V)\<close>, each with as many elements as its shape
  says.
\<close>

definition documented_shapes ::
  "tensor \<Rightarrow> tensor \<Rightarrow> tensor \<Rightarrow> tensor \<Rightarrow> tensor \<Rightarrow> tensor
     \<Rightarrow> nat \<Rightarrow> nat \<Rightarrow> nat \<Rightarrow> nat \<Rightarrow> nat \<Rightarrow> nat \<Rightarrow> bool" where
  "documented_shapes r k v w u kv_state B H L K V Bw \<longleftrightarrow>
     wf r \<and> wf k \<and> wf v \<and> wf w \<and> wf u \<and> wf kv_state \<and>
     dims r = [B, H, L, K] \<and> dims k = [B, H, L, K] \<and> dims v = [B, H, L, V] \<and>
     dims w = [Bw, H, L, K] \<and> (Bw = B \<or> Bw = 1) \<and>
     dims u = [1, H, 1, K] \<and> dims kv_state = [B, H, K, V]"

text \<open>Two tensors of the same shape, whatever their elements.\<close>

definition same_dims :: "tensor \<Rightarrow> tensor \<Rightarrow> bool" where
  "same_dims a b \<longleftrightarrow> dims a = dims b"

section \<open>Basic facts about tensors\<close>

lemma bnd_Inl [simp]: "bnd (Inl e) f = Inl e"
  by (simp add: bnd_def)

lemma bnd_Inr [simp]: "bnd (Inr x) f = f x"
  by (simp add: bnd_def)

lemma bnd_eq_Inr_iff: "bnd m f = Inr y \<longleftrightarrow> (\<exists>x. m = Inr x \<and> f x = Inr y)"
  by (cases m) auto

lemma isl_bnd: "isl (bnd m f) \<longleftrightarrow> isl m \<or> (\<exists>x. m = Inr x \<and> isl (f x))"
  by (cases m) auto

lemma valid_Nil [simp]: "valid [] idx \<longleftrightarrow> idx = []"
  by (simp add: valid_def)

lemma valid_Cons [simp]: "valid (d # ds) idx \<longleftrightarrow> (\<exists>i js. idx = i # js \<and> i < d \<and> valid ds js)"
  by (auto simp: valid_def list_all2_Cons2)

lemma valid_length: "valid ds idx \<Longrightarrow> length idx = length ds"
  by (simp add: valid_def list_all2_lengthD)

lemma valid_nth: "valid ds idx \<Longrightarrow> j < length ds \<Longrightarrow> idx ! j < ds ! j"
  by (simp add: valid_def list_all2_conv_all_nth)

lemma valid_iff: "valid ds idx \<longleftrightarrow> length idx = length ds \<and> (\<forall>j < length ds. idx ! j < ds ! j)"
  by (auto simp: valid_def list_all2_conv_all_nth)

lemma ravel_less: "valid ds idx \<Longrightarrow> ravel ds idx < prod_list ds"
proof (induction ds arbitrary: idx)
  case Nil
  then show ?case by simp
next
  case (Cons d ds)
  then obtain i js where idx: "idx = i # js" and i: "i < d" and js: "valid ds js"
    by auto
  have "ravel ds js < prod_list ds" using Cons.IH js by simp
  moreover have "i * prod_list ds + prod_list ds \<le> d * prod_list ds"
    using i by (metis Suc_leI mult_Suc mult_le_mono1 add.commute)
  ultimately show ?case using idx by simp
qed

lemma unravel_ravel: "valid ds idx \<Longrightarrow> unravel ds (ravel ds idx) = idx"
proof (induction ds arbitrary: idx)
  case Nil
  then show ?case by simp
next
  case (Cons d ds)
  then obtain i js where idx: "idx = i # js" and i: "i < d" and js: "valid ds js"
    by auto
  have lt: "ravel ds js < prod_list ds" using js by (rule ravel_less)
  then show ?case using idx Cons.IH[OF js] by simp
qed

lemma valid_unravel: "n < prod_list ds \<Longrightarrow> valid ds (unravel ds n)"
proof (induction ds arbitrary: n)
  case Nil
  then show ?case by simp
next
  case (Cons d ds)
  have pos: "0 < prod_list ds" using Cons.prems by (cases "prod_list ds = 0") auto
  have "n div prod_list ds < d"
    using Cons.prems pos by (simp add: less_mult_imp_div_less mult.commute)
  moreover have "valid ds (unravel ds (n mod prod_list ds))"
    using Cons.IH pos by simp
  ultimately show ?case by simp
qed

lemma dims_mk [simp]: "dims (mk ds f) = ds"
  by (simp add: mk_def)

lemma wf_mk [simp]: "wf (mk ds f)"
  by (simp add: mk_def wf_def)

lemma elt_mk [simp]: "valid ds idx \<Longrightarrow> elt (mk ds f) idx = f idx"
  by (simp add: mk_def elt_def ravel_less unravel_ravel)

lemma mk_cong: "(\<And>idx. valid ds idx \<Longrightarrow> f idx = g idx) \<Longrightarrow> mk ds f = mk ds g"
  by (simp add: mk_def valid_unravel)

lemma ravel_unravel: "n < prod_list ds \<Longrightarrow> ravel ds (unravel ds n) = n"
proof (induction ds arbitrary: n)
  case Nil
  then show ?case by simp
next
  case (Cons d ds)
  have pos: "0 < prod_list ds" using Cons.prems by (cases "prod_list ds = 0") auto
  then show ?case using Cons.IH[of "n mod prod_list ds"] by simp
qed

lemma mk_elt: "wf t \<Longrightarrow> mk (dims t) (elt t) = t"
  by (cases t) (auto simp: mk_def wf_def elt_def ravel_unravel intro!: nth_equalityI)

lemma sum_list_upt_lessThan: "sum_list (map f [0..<n]) = (\<Sum>j<n. f j)"
  by (simp add: interv_sum_list_conv_sum_set_nat atLeast0LessThan)

subsection \<open>The operations on tensors given by index functions\<close>

lemma unop_mk: "unop f (mk ds F) = mk ds (\<lambda>idx. f (F idx))"
  by (simp add: unop_def mk_def)

lemma bshape_rev_props:
  "bshape_rev xs ys = Inr zs \<Longrightarrow>
     length zs = max (length xs) (length ys) \<and>
     (\<forall>j < length xs. xs ! j = zs ! j \<or> xs ! j = 1) \<and>
     (\<forall>j < length ys. ys ! j = zs ! j \<or> ys ! j = 1)"
proof (induction xs ys arbitrary: zs rule: bshape_rev.induct)
  case (1 ys)
  then show ?case by auto
next
  case (2 v va)
  then show ?case by auto
next
  case (3 x xs y ys)
  from "3.prems" obtain ws where ws: "bshape_rev xs ys = Inr ws"
    and zs: "zs = (if x = y \<or> y = 1 then x else y) # ws" and ok: "x = y \<or> y = 1 \<or> x = 1"
    by (auto simp: bnd_eq_Inr_iff split: if_splits)
  have ih: "length ws = max (length xs) (length ys) \<and>
     (\<forall>j < length xs. xs ! j = ws ! j \<or> xs ! j = 1) \<and>
     (\<forall>j < length ys. ys ! j = ws ! j \<or> ys ! j = 1)"
    using ws ok "3.IH" by (cases "x = y \<or> y = 1") auto
  show ?case
    using ih ok unfolding zs by (auto simp: nth_Cons split: nat.splits)
qed

lemma bshape_props:
  assumes "bshape xs ys = Inr zs"
  shows "length zs = max (length xs) (length ys)"
    and "j < length xs \<Longrightarrow> xs ! j = zs ! (j + (length zs - length xs)) \<or> xs ! j = 1"
    and "j < length ys \<Longrightarrow> ys ! j = zs ! (j + (length zs - length ys)) \<or> ys ! j = 1"
proof -
  from assms obtain ws where ws: "bshape_rev (rev xs) (rev ys) = Inr ws" and zs: "zs = rev ws"
    by (auto simp: bshape_def bnd_eq_Inr_iff)
  note p = bshape_rev_props[OF ws]
  show len: "length zs = max (length xs) (length ys)" using p zs by simp
  show "xs ! j = zs ! (j + (length zs - length xs)) \<or> xs ! j = 1" if j: "j < length xs"
  proof -
    have "rev xs ! (length xs - 1 - j) = ws ! (length xs - 1 - j) \<or> rev xs ! (length xs - 1 - j) = 1"
      using p j by simp
    moreover have "rev xs ! (length xs - 1 - j) = xs ! j" using j by (simp add: rev_nth)
    moreover have "zs ! (j + (length zs - length xs)) = ws ! (length xs - 1 - j)"
    proof -
      have "j + (length zs - length xs) < length ws" using j len zs by auto
      then have "rev ws ! (j + (length zs - length xs)) = ws ! (length ws - Suc (j + (length zs - length xs)))"
        by (rule rev_nth)
      moreover have "length ws - Suc (j + (length zs - length xs)) = length xs - 1 - j"
        using j len zs by auto
      ultimately show ?thesis using zs by simp
    qed
    ultimately show ?thesis by simp
  qed
  show "ys ! j = zs ! (j + (length zs - length ys)) \<or> ys ! j = 1" if j: "j < length ys"
  proof -
    have "rev ys ! (length ys - 1 - j) = ws ! (length ys - 1 - j) \<or> rev ys ! (length ys - 1 - j) = 1"
      using p j by simp
    moreover have "rev ys ! (length ys - 1 - j) = ys ! j" using j by (simp add: rev_nth)
    moreover have "zs ! (j + (length zs - length ys)) = ws ! (length ys - 1 - j)"
    proof -
      have "j + (length zs - length ys) < length ws" using j len zs by auto
      then have "rev ws ! (j + (length zs - length ys)) = ws ! (length ws - Suc (j + (length zs - length ys)))"
        by (rule rev_nth)
      moreover have "length ws - Suc (j + (length zs - length ys)) = length ys - 1 - j"
        using j len zs by auto
      ultimately show ?thesis using zs by simp
    qed
    ultimately show ?thesis by simp
  qed
qed

lemma valid_bidx:
  assumes len: "length ds \<le> length zs"
    and el: "\<And>j. j < length ds \<Longrightarrow> ds ! j = zs ! (j + (length zs - length ds)) \<or> ds ! j = 1"
    and v: "valid zs idx"
  shows "valid ds (bidx ds idx)"
proof -
  have li: "length idx = length zs" using v by (rule valid_length)
  show ?thesis
    unfolding valid_iff bidx_def
  proof (intro conjI allI impI)
    show "length (map2 (\<lambda>d i. if d = 1 then 0 else i) ds (drop (length idx - length ds) idx)) = length ds"
      using len li by simp
    fix j assume j: "j < length ds"
    have "idx ! (j + (length zs - length ds)) < zs ! (j + (length zs - length ds))"
      using v j len by (intro valid_nth) auto
    then show "map2 (\<lambda>d i. if d = 1 then 0 else i) ds (drop (length idx - length ds) idx) ! j < ds ! j"
      using j len li el[OF j] by (auto simp: add.commute)
  qed
qed

lemma binop_mk:
  assumes "bshape ds ds' = Inr zs"
  shows "binop f (mk ds F) (mk ds' G) = Inr (mk zs (\<lambda>idx. f (F (bidx ds idx)) (G (bidx ds' idx))))"
proof -
  note p = bshape_props[OF assms]
  have "mk zs (\<lambda>idx. f (elt (mk ds F) (bidx ds idx)) (elt (mk ds' G) (bidx ds' idx)))
      = mk zs (\<lambda>idx. f (F (bidx ds idx)) (G (bidx ds' idx)))"
  proof (rule mk_cong)
    fix idx assume v: "valid zs idx"
    have "valid ds (bidx ds idx)" using p v by (intro valid_bidx[where zs=zs]) auto
    moreover have "valid ds' (bidx ds' idx)" using p v by (intro valid_bidx[where zs=zs]) auto
    ultimately show "f (elt (mk ds F) (bidx ds idx)) (elt (mk ds' G) (bidx ds' idx))
      = f (F (bidx ds idx)) (G (bidx ds' idx))" by simp
  qed
  then show ?thesis using assms by (simp add: binop_def)
qed

lemma reshape_mk:
  assumes "prod_list ds' = prod_list ds"
    and "\<And>idx. valid ds' idx \<Longrightarrow> valid ds (g idx) \<and> ravel ds (g idx) = ravel ds' idx"
  shows "\<lparr>dims = ds', elems = elems (mk ds F)\<rparr> = mk ds' (\<lambda>idx. F (g idx))"
proof -
  have "F (unravel ds n) = F (g (unravel ds' n))" if n: "n < prod_list ds'" for n
  proof -
    have v: "valid ds' (unravel ds' n)" using n by (rule valid_unravel)
    have "ravel ds (g (unravel ds' n)) = n"
      using assms(2)[OF v] n by (simp add: ravel_unravel)
    then have "unravel ds n = g (unravel ds' n)"
      using assms(2)[OF v] unravel_ravel[of ds "g (unravel ds' n)"] by simp
    then show ?thesis by simp
  qed
  then show ?thesis using assms(1) by (simp add: mk_def)
qed

lemma no_minus_one: "\<forall>s \<in> set sizes. (0::int) \<le> s \<Longrightarrow> filter (\<lambda>s. s = - 1) sizes = [] \<and> - 1 \<notin> set sizes"
  by (induction sizes) auto

lemma view_nonneg:
  "\<forall>s \<in> set sizes. 0 \<le> s \<Longrightarrow> prod_list (map nat sizes) = prod_list (dims t) \<Longrightarrow>
     view t sizes = Inr \<lparr>dims = map nat sizes, elems = elems t\<rparr>"
  using no_minus_one[of sizes] by (auto simp: view_def Let_def)

lemma view_nonneg_fail:
  "\<forall>s \<in> set sizes. 0 \<le> s \<Longrightarrow> prod_list (map nat sizes) \<noteq> prod_list (dims t) \<Longrightarrow>
     view t sizes = Inl RuntimeError"
  using no_minus_one[of sizes] by (auto simp: view_def Let_def)

lemma length_swap_last2 [simp]: "2 \<le> length xs \<Longrightarrow> length (swap_last2 xs) = length xs"
  by (simp add: swap_last2_def Let_def)

lemma swap_last2_nth:
  assumes "2 \<le> length xs" "j < length xs"
  shows "swap_last2 xs ! j =
     (if j = length xs - 2 then xs ! (length xs - 1)
      else if j = length xs - 1 then xs ! (length xs - 2) else xs ! j)"
proof -
  have "length xs - 1 - (length xs - 2) = 1" using assms by simp
  then show ?thesis
    using assms by (auto simp: swap_last2_def Let_def nth_append)
qed

lemma valid_swap_last2:
  assumes "2 \<le> length ds" "valid (swap_last2 ds) idx"
  shows "valid ds (swap_last2 idx)"
proof -
  have li: "length idx = length ds"
    using assms valid_length[OF assms(2)] by simp
  have nth: "\<And>j. j < length ds \<Longrightarrow> idx ! j < swap_last2 ds ! j"
    using valid_nth[OF assms(2)] assms(1) by simp
  show ?thesis
    unfolding valid_iff
  proof (intro conjI allI impI)
    show "length (swap_last2 idx) = length ds" using li assms(1) by simp
    fix j assume j: "j < length ds"
    have ne: "length ds - 1 \<noteq> length ds - 2" using assms(1) by simp
    have a: "idx ! (length ds - 2) < ds ! (length ds - 1)"
      using nth[of "length ds - 2"] swap_last2_nth[OF assms(1), of "length ds - 2"] assms(1)
      by simp
    have b: "idx ! (length ds - 1) < ds ! (length ds - 2)"
      using nth[of "length ds - 1"] swap_last2_nth[OF assms(1), of "length ds - 1"] assms(1) ne
      by simp
    have c: "idx ! j < ds ! j" if "j \<noteq> length ds - 2" "j \<noteq> length ds - 1"
      using nth[of j] j that swap_last2_nth[OF assms(1), of j] by simp
    show "swap_last2 idx ! j < ds ! j"
      using a b c j li assms(1) ne swap_last2_nth[of idx j] by auto
  qed
qed

lemma mT_mk:
  assumes "2 \<le> length ds"
  shows "mT (mk ds F) = Inr (mk (swap_last2 ds) (\<lambda>idx. F (swap_last2 idx)))"
proof -
  have "mk (swap_last2 ds) (\<lambda>idx. elt (mk ds F) (swap_last2 idx))
      = mk (swap_last2 ds) (\<lambda>idx. F (swap_last2 idx))"
    by (rule mk_cong) (simp add: valid_swap_last2[OF assms])
  moreover have "length ds \<noteq> 0" "length ds \<noteq> 1" using assms by auto
  ultimately show ?thesis by (simp add: mT_def)
qed

lemma py_slice_le: "py_slice n lo hi = (a, len) \<Longrightarrow> a + len \<le> n"
  by (auto simp: py_slice_def Let_def max_def min_def split: if_splits)

lemma valid_update:
  assumes "valid (ds[p := m]) idx" "p < length ds" "x < ds ! p"
  shows "valid ds (idx[p := x])"
  unfolding valid_iff
proof (intro conjI allI impI)
  show "length (idx[p := x]) = length ds" using valid_length[OF assms(1)] by simp
  fix j assume j: "j < length ds"
  show "idx[p := x] ! j < ds ! j"
    using valid_nth[OF assms(1), of j] valid_length[OF assms(1)] j assms(2,3)
    by (cases "j = p") auto
qed

lemma valid_update_nth: "valid (ds[p := m]) idx \<Longrightarrow> p < length ds \<Longrightarrow> idx ! p < m"
  using valid_nth[of "ds[p := m]" idx p] by simp

lemma slice_end_mk:
  assumes "j \<le> length ds" "0 < j" "py_slice (ds ! (length ds - j)) lo hi = (a, len)"
  shows "slice_end j (mk ds F) lo hi
    = Inr (mk (ds[length ds - j := len])
            (\<lambda>idx. F (idx[length ds - j := idx ! (length ds - j) + a])))"
proof -
  let ?p = "length ds - j"
  have p: "?p < length ds" using assms by simp
  have "mk (ds[?p := len]) (\<lambda>idx. elt (mk ds F) (idx[?p := idx ! ?p + a]))
      = mk (ds[?p := len]) (\<lambda>idx. F (idx[?p := idx ! ?p + a]))"
  proof (rule mk_cong)
    fix idx assume v: "valid (ds[?p := len]) idx"
    have "idx ! ?p + a < ds ! ?p"
      using valid_update_nth[OF v p] py_slice_le[OF assms(3)] by simp
    then have "valid ds (idx[?p := idx ! ?p + a])" using v p by (intro valid_update)
    then show "elt (mk ds F) (idx[?p := idx ! ?p + a]) = F (idx[?p := idx ! ?p + a])" by simp
  qed
  then show ?thesis using assms by (simp add: slice_end_def Let_def)
qed

lemma cumsum2_mk:
  assumes "2 \<le> length ds"
  shows "cumsum2 (mk ds F)
    = Inr (mk ds (\<lambda>idx. \<Sum>j<Suc (idx ! (length ds - 2)). F (idx[length ds - 2 := j])))"
proof -
  let ?p = "length ds - 2"
  have p: "?p < length ds" using assms by simp
  have "mk ds (\<lambda>idx. sum_list (map (\<lambda>j. elt (mk ds F) (idx[?p := j])) [0..<Suc (idx ! ?p)]))
      = mk ds (\<lambda>idx. \<Sum>j<Suc (idx ! ?p). F (idx[?p := j]))"
  proof (rule mk_cong)
    fix idx assume v: "valid ds idx"
    have "elt (mk ds F) (idx[?p := j]) = F (idx[?p := j])" if "j < Suc (idx ! ?p)" for j
    proof -
      have "j < ds ! ?p" using that valid_nth[OF v p] by simp
      moreover have "valid (ds[?p := ds ! ?p]) idx" using v by simp
      ultimately have "valid ds (idx[?p := j])" using p by (intro valid_update)
      then show ?thesis by simp
    qed
    then show "sum_list (map (\<lambda>j. elt (mk ds F) (idx[?p := j])) [0..<Suc (idx ! ?p)])
      = (\<Sum>j<Suc (idx ! ?p). F (idx[?p := j]))"
      unfolding sum_list_upt_lessThan by (intro sum.cong) auto
  qed
  then show ?thesis using assms by (simp add: cumsum2_def Let_def)
qed

lemma sum2_keepdim_mk:
  assumes "2 \<le> length ds"
  shows "sum2_keepdim (mk ds F)
    = Inr (mk (ds[length ds - 2 := 1]) (\<lambda>idx. \<Sum>j<ds ! (length ds - 2). F (idx[length ds - 2 := j])))"
proof -
  let ?p = "length ds - 2"
  have p: "?p < length ds" using assms by simp
  have "mk (ds[?p := 1]) (\<lambda>idx. sum_list (map (\<lambda>j. elt (mk ds F) (idx[?p := j])) [0..<ds ! ?p]))
      = mk (ds[?p := 1]) (\<lambda>idx. \<Sum>j<ds ! ?p. F (idx[?p := j]))"
  proof (rule mk_cong)
    fix idx assume v: "valid (ds[?p := 1]) idx"
    have "elt (mk ds F) (idx[?p := j]) = F (idx[?p := j])" if "j < ds ! ?p" for j
    proof -
      have "valid ds (idx[?p := j])" using p v that by (intro valid_update)
      then show ?thesis by simp
    qed
    then show "sum_list (map (\<lambda>j. elt (mk ds F) (idx[?p := j])) [0..<ds ! ?p])
      = (\<Sum>j<ds ! ?p. F (idx[?p := j]))"
      unfolding sum_list_upt_lessThan by (intro sum.cong) auto
  qed
  then show ?thesis using assms by (simp add: sum2_keepdim_def Let_def)
qed

lemma cat2_mk:
  assumes "2 \<le> length ds" "length ds = length ds'"
    and "ds[length ds - 2 := 0] = ds'[length ds - 2 := 0]"
  shows "cat2 (mk ds F) (mk ds' G)
    = Inr (mk (ds[length ds - 2 := ds ! (length ds - 2) + ds' ! (length ds - 2)])
        (\<lambda>idx. if idx ! (length ds - 2) < ds ! (length ds - 2) then F idx
                else G (idx[length ds - 2 := idx ! (length ds - 2) - ds ! (length ds - 2)])))"
proof -
  let ?p = "length ds - 2"
  let ?n = "ds ! ?p"
  have p: "?p < length ds" using assms by simp
  have same: "ds ! j = ds' ! j" if "j \<noteq> ?p" "j < length ds" for j
    using assms(3) that by (metis nth_list_update_neq)
  have "mk (ds[?p := ?n + ds' ! ?p])
          (\<lambda>idx. if idx ! ?p < ?n then elt (mk ds F) idx else elt (mk ds' G) (idx[?p := idx ! ?p - ?n]))
      = mk (ds[?p := ?n + ds' ! ?p])
          (\<lambda>idx. if idx ! ?p < ?n then F idx else G (idx[?p := idx ! ?p - ?n]))"
  proof (rule mk_cong)
    fix idx assume v: "valid (ds[?p := ?n + ds' ! ?p]) idx"
    have l: "idx ! ?p < ?n + ds' ! ?p" using valid_update_nth[OF v p] .
    show "(if idx ! ?p < ?n then elt (mk ds F) idx else elt (mk ds' G) (idx[?p := idx ! ?p - ?n]))
      = (if idx ! ?p < ?n then F idx else G (idx[?p := idx ! ?p - ?n]))"
    proof (cases "idx ! ?p < ?n")
      case True
      have "valid ds (idx[?p := idx ! ?p])" using v p True by (intro valid_update)
      then show ?thesis using True by simp
    next
      case False
      have "ds'[?p := ?n + ds' ! ?p] = ds[?p := ?n + ds' ! ?p]"
        using assms(2,3) by (metis list_update_overwrite)
      then have "valid (ds'[?p := ?n + ds' ! ?p]) idx" using v by simp
      moreover have "idx ! ?p - ?n < ds' ! ?p" using l False by simp
      ultimately have "valid ds' (idx[?p := idx ! ?p - ?n])"
        using p assms(2) by (intro valid_update) auto
      then show ?thesis using False by simp
    qed
  qed
  then show ?thesis using assms(1,3) by (simp add: cat2_def Let_def assms(2)[symmetric])
qed

lemma valid_append:
  "valid (xs @ ys) idx \<longleftrightarrow> valid xs (take (length xs) idx) \<and> valid ys (drop (length xs) idx)"
proof
  assume "valid (xs @ ys) idx"
  then obtain us vs where "idx = us @ vs" "length us = length xs" "list_all2 (<) us xs"
    "list_all2 (<) vs ys"
    by (auto simp: valid_def list_all2_append2)
  then show "valid xs (take (length xs) idx) \<and> valid ys (drop (length xs) idx)"
    by (simp add: valid_def)
next
  assume a: "valid xs (take (length xs) idx) \<and> valid ys (drop (length xs) idx)"
  then have "list_all2 (<) (take (length xs) idx @ drop (length xs) idx) (xs @ ys)"
    unfolding valid_def by (intro list_all2_appendI) auto
  then show "valid (xs @ ys) idx" by (simp add: valid_def)
qed

lemma valid_appendI: "valid xs a \<Longrightarrow> valid ys b \<Longrightarrow> valid (xs @ ys) (a @ b)"
  by (simp add: valid_def list_all2_appendI)

lemma unbind3_mk:
  assumes "3 \<le> length ds"
  shows "unbind3 (mk ds F)
    = Inr (map (\<lambda>i. mk (take (length ds - 3) ds @ drop (Suc (length ds - 3)) ds)
                       (\<lambda>idx. F (take (length ds - 3) idx @ [i] @ drop (length ds - 3) idx)))
               [0..<ds ! (length ds - 3)])"
proof -
  let ?p = "length ds - 3"
  let ?ds' = "take ?p ds @ drop (Suc ?p) ds"
  have p: "?p < length ds" using assms by simp
  have split: "ds = take ?p ds @ [ds ! ?p] @ drop (Suc ?p) ds"
    using p by (simp add: id_take_nth_drop[symmetric])
  have "mk ?ds' (\<lambda>idx. elt (mk ds F) (take ?p idx @ [i] @ drop ?p idx))
      = mk ?ds' (\<lambda>idx. F (take ?p idx @ [i] @ drop ?p idx))" if i: "i < ds ! ?p" for i
  proof (rule mk_cong)
    fix idx assume v: "valid ?ds' idx"
    have "valid (take ?p ds) (take ?p idx)" "valid (drop (Suc ?p) ds) (drop ?p idx)"
      using v p unfolding valid_append[of "take ?p ds"] by (simp_all add: min_def)
    then have "valid (take ?p ds @ [ds ! ?p] @ drop (Suc ?p) ds) (take ?p idx @ [i] @ drop ?p idx)"
      using i by (intro valid_appendI) auto
    then have "valid ds (take ?p idx @ [i] @ drop ?p idx)" using split by simp
    then show "elt (mk ds F) (take ?p idx @ [i] @ drop ?p idx) = F (take ?p idx @ [i] @ drop ?p idx)"
      by simp
  qed
  then show ?thesis using assms by (simp add: unbind3_def Let_def)
qed

lemma stack2_mk:
  assumes "2 \<le> length ds" "0 < N"
  shows "stack2 (map (\<lambda>n. mk ds (F n)) [0..<N])
    = Inr (mk (take 2 ds @ [N] @ drop 2 ds) (\<lambda>idx. F (idx ! 2) (take 2 idx @ drop 3 idx)))"
proof -
  let ?ts = "map (\<lambda>n. mk ds (F n)) [0..<N]"
  have hd: "?ts = mk ds (F 0) # tl ?ts" using assms(2) by (simp add: upt_conv_Cons)
  have same: "\<not> (\<exists>s \<in> set ?ts. dims s \<noteq> ds)" by auto
  have "mk (take 2 ds @ [N] @ drop 2 ds) (\<lambda>idx. elt (?ts ! (idx ! 2)) (take 2 idx @ drop 3 idx))
      = mk (take 2 ds @ [N] @ drop 2 ds) (\<lambda>idx. F (idx ! 2) (take 2 idx @ drop 3 idx))"
  proof (rule mk_cong)
    fix idx assume v: "valid (take 2 ds @ [N] @ drop 2 ds) idx"
    have l2: "length (take 2 ds) = 2" using assms(1) by simp
    have a: "valid (take 2 ds) (take 2 idx)" and b: "valid ([N] @ drop 2 ds) (drop 2 idx)"
      using v l2 unfolding valid_append[of "take 2 ds"] by simp_all
    from b obtain i js where d2: "drop 2 idx = i # js" and i: "i < N" and js: "valid (drop 2 ds) js"
      by auto
    have li: "length idx = Suc (length ds)" using valid_length[OF v] assms(1) by simp
    have i2: "idx ! 2 = i" using d2 li by (metis Cons_nth_drop_Suc assms(1) le_imp_less_Suc list.inject)
    have d3: "drop 3 idx = js" using d2 by (metis drop_Suc drop_drop list.sel(3) numeral_3_eq_3 numeral_2_eq_2 tl_drop plus_1_eq_Suc)
    have "valid (take 2 ds @ drop 2 ds) (take 2 idx @ drop 3 idx)"
      using a js d3 by (intro valid_appendI) auto
    then have "valid ds (take 2 idx @ drop 3 idx)" by simp
    then show "elt (?ts ! (idx ! 2)) (take 2 idx @ drop 3 idx) = F (idx ! 2) (take 2 idx @ drop 3 idx)"
      using i i2 by simp
  qed
  moreover have "stack2 ?ts = Inr (mk (take 2 ds @ [length ?ts] @ drop 2 ds)
      (\<lambda>idx. elt (?ts ! (idx ! 2)) (take 2 idx @ drop 3 idx)))"
    unfolding stack2_def using same assms(1) by (subst (1) hd) (simp del: map_upt_Suc upt_Suc)
  ultimately show ?thesis by simp
qed

lemma matmul_mk:
  assumes "bshape ba bb = Inr bs"
  shows "matmul (mk (ba @ [m, n]) F) (mk (bb @ [n, q]) G)
    = Inr (mk (bs @ [m, q]) (\<lambda>idx.
         \<Sum>j<n. F (bidx ba (take (length bs) idx) @ [idx ! length bs, j])
               * G (bidx bb (take (length bs) idx) @ [j, idx ! Suc (length bs)])))"
proof -
  note p = bshape_props[OF assms]
  let ?A = "mk (ba @ [m, n]) F" and ?B = "mk (bb @ [n, q]) G"
  have "mk (bs @ [m, q]) (\<lambda>idx.
          sum_list (map (\<lambda>j. elt ?A (bidx ba (take (length bs) idx) @ [idx ! length bs, j])
                           * elt ?B (bidx bb (take (length bs) idx) @ [j, idx ! Suc (length bs)]))
                        [0..<n]))
      = mk (bs @ [m, q]) (\<lambda>idx.
         \<Sum>j<n. F (bidx ba (take (length bs) idx) @ [idx ! length bs, j])
               * G (bidx bb (take (length bs) idx) @ [j, idx ! Suc (length bs)]))"
  proof (rule mk_cong)
    fix idx assume v: "valid (bs @ [m, q]) idx"
    have vb: "valid bs (take (length bs) idx)" and vl: "valid [m, q] (drop (length bs) idx)"
      using v unfolding valid_append by simp_all
    from vl obtain i l where d: "drop (length bs) idx = [i, l]" and i: "i < m" and l: "l < q"
      by auto
    have li: "length idx = length bs + 2" using valid_length[OF v] by simp
    have i1: "idx ! length bs = i"
      using d li by (metis add.right_neutral append_take_drop_id length_take min.absorb2 nth_append_length le_add1)
    have i2: "idx ! Suc (length bs) = l"
    proof -
      have "idx = take (length bs) idx @ [i, l]" using d by (metis append_take_drop_id)
      then have "idx ! Suc (length bs) = (take (length bs) idx @ [i, l]) ! Suc (length bs)" by simp
      also have "\<dots> = l" using li by (simp add: nth_append)
      finally show ?thesis .
    qed
    have va: "valid ba (bidx ba (take (length bs) idx))"
      using p vb by (intro valid_bidx[where zs=bs]) auto
    have vbb: "valid bb (bidx bb (take (length bs) idx))"
      using p vb by (intro valid_bidx[where zs=bs]) auto
    have "elt ?A (bidx ba (take (length bs) idx) @ [idx ! length bs, j])
        = F (bidx ba (take (length bs) idx) @ [idx ! length bs, j])" if "j < n" for j
      using va i that i1 by (intro elt_mk valid_appendI) auto
    moreover have "elt ?B (bidx bb (take (length bs) idx) @ [j, idx ! Suc (length bs)])
        = G (bidx bb (take (length bs) idx) @ [j, idx ! Suc (length bs)])" if "j < n" for j
      using vbb l that i2 by (intro elt_mk valid_appendI) auto
    ultimately show "sum_list (map (\<lambda>j. elt ?A (bidx ba (take (length bs) idx) @ [idx ! length bs, j])
                           * elt ?B (bidx bb (take (length bs) idx) @ [j, idx ! Suc (length bs)]))
                        [0..<n])
      = (\<Sum>j<n. F (bidx ba (take (length bs) idx) @ [idx ! length bs, j])
               * G (bidx bb (take (length bs) idx) @ [j, idx ! Suc (length bs)]))"
      unfolding sum_list_upt_lessThan by (intro sum.cong) auto
  qed
  then show ?thesis using assms by (simp add: matmul_def bmm_def Let_def nth_append)
qed

lemma tril_m1_mk:
  assumes "2 \<le> length ds"
  shows "tril_m1 (mk ds F)
    = Inr (mk ds (\<lambda>idx. if idx ! (length ds - 1) < idx ! (length ds - 2) then F idx else 0))"
  using assms by (auto simp: tril_m1_def Let_def intro!: mk_cong)

lemma diag_embed_mk:
  assumes "ds \<noteq> []"
  shows "diag_embed (mk ds F)
    = Inr (mk (ds @ [last ds]) (\<lambda>idx. if idx ! (length ds - 1) = idx ! length ds
                                       then F (butlast idx) else 0))"
proof -
  have "valid ds (butlast idx)" if "valid (ds @ [last ds]) idx" for idx
    using that valid_length[OF that] unfolding valid_append by (simp add: butlast_conv_take)
  then show ?thesis using assms by (auto simp: diag_embed_def Let_def intro!: mk_cong)
qed

lemma einsum_bhnztk_mk:
  assumes "length ds = 6" "length ds' = 6" "bshape ds ds' = Inr zs"
  shows "einsum_bhnztk (mk ds F) (mk ds' G)
    = Inr (mk (butlast zs) (\<lambda>idx. \<Sum>j<last zs. F (bidx ds (idx @ [j])) * G (bidx ds' (idx @ [j]))))"
proof -
  note p = bshape_props[OF assms(3)]
  have lz: "length zs = 6" using p assms by simp
  then have zs: "zs = butlast zs @ [last zs]" by (metis append_butlast_last_id length_0_conv zero_neq_numeral)
  have "mk (butlast zs) (\<lambda>idx. sum_list (map (\<lambda>j. elt (mk ds F) (bidx ds (idx @ [j]))
                * elt (mk ds' G) (bidx ds' (idx @ [j]))) [0..<last zs]))
      = mk (butlast zs) (\<lambda>idx. \<Sum>j<last zs. F (bidx ds (idx @ [j])) * G (bidx ds' (idx @ [j])))"
  proof (rule mk_cong)
    fix idx assume v: "valid (butlast zs) idx"
    have vz: "valid zs (idx @ [j])" if "j < last zs" for j
    proof -
      have "valid (butlast zs @ [last zs]) (idx @ [j])" using v that by (intro valid_appendI) auto
      then show ?thesis using zs by simp
    qed
    have "elt (mk ds F) (bidx ds (idx @ [j])) = F (bidx ds (idx @ [j]))" if "j < last zs" for j
      using p vz[OF that] by (intro elt_mk valid_bidx[where zs=zs]) auto
    moreover have "elt (mk ds' G) (bidx ds' (idx @ [j])) = G (bidx ds' (idx @ [j]))" if "j < last zs" for j
      using p vz[OF that] by (intro elt_mk valid_bidx[where zs=zs]) auto
    ultimately show "sum_list (map (\<lambda>j. elt (mk ds F) (bidx ds (idx @ [j]))
                * elt (mk ds' G) (bidx ds' (idx @ [j]))) [0..<last zs])
      = (\<Sum>j<last zs. F (bidx ds (idx @ [j])) * G (bidx ds' (idx @ [j])))"
      unfolding sum_list_upt_lessThan by (intro sum.cong) auto
  qed
  then show ?thesis using assms by (simp add: einsum_bhnztk_def)
qed

lemma setitem_end_mk:
  assumes "j \<le> length ds" "0 < j" "py_slice (ds ! (length ds - j)) lo hi = (a, len)"
    and "expandable ds' (ds[length ds - j := len])"
  shows "setitem_end j (mk ds F) lo hi (mk ds' G)
    = Inr (mk ds (\<lambda>idx. if a \<le> idx ! (length ds - j) \<and> idx ! (length ds - j) < a + len
                        then G (bidx ds' (idx[length ds - j := idx ! (length ds - j) - a]))
                        else F idx))"
proof -
  let ?p = "length ds - j"
  let ?zs = "ds[?p := len]"
  have p: "?p < length ds" using assms by simp
  have len: "length ds' \<le> length ?zs" using assms(4) by (simp add: expandable_def)
  have el: "ds' ! i = ?zs ! (i + (length ?zs - length ds')) \<or> ds' ! i = 1" if "i < length ds'" for i
  proof -
    have "list_all2 (\<lambda>s t. s = t \<or> s = 1) ds' (drop (length ?zs - length ds') ?zs)"
      using assms(4) by (simp add: expandable_def)
    then have "ds' ! i = drop (length ?zs - length ds') ?zs ! i \<or> ds' ! i = 1"
      using that by (auto simp: list_all2_conv_all_nth)
    then show ?thesis using that len by (simp add: add.commute)
  qed
  have "mk ds (\<lambda>idx. if a \<le> idx ! ?p \<and> idx ! ?p < a + len
                        then elt (mk ds' G) (bidx ds' (idx[?p := idx ! ?p - a]))
                        else elt (mk ds F) idx)
      = mk ds (\<lambda>idx. if a \<le> idx ! ?p \<and> idx ! ?p < a + len
                        then G (bidx ds' (idx[?p := idx ! ?p - a]))
                        else F idx)"
  proof (rule mk_cong)
    fix idx assume v: "valid ds idx"
    have "valid ds' (bidx ds' (idx[?p := idx ! ?p - a]))" if "a \<le> idx ! ?p" "idx ! ?p < a + len"
    proof -
      have "valid ?zs (idx[?p := idx ! ?p - a])"
        unfolding valid_iff
      proof (intro conjI allI impI)
        show "length (idx[?p := idx ! ?p - a]) = length ?zs" using valid_length[OF v] by simp
        fix i assume "i < length ?zs"
        then show "idx[?p := idx ! ?p - a] ! i < ?zs ! i"
          using valid_nth[OF v, of i] valid_length[OF v] that by (cases "i = ?p") auto
      qed
      then show ?thesis using len el by (intro valid_bidx[where zs="?zs"]) auto
    qed
    then show "(if a \<le> idx ! ?p \<and> idx ! ?p < a + len
                        then elt (mk ds' G) (bidx ds' (idx[?p := idx ! ?p - a]))
                        else elt (mk ds F) idx)
      = (if a \<le> idx ! ?p \<and> idx ! ?p < a + len
                        then G (bidx ds' (idx[?p := idx ! ?p - a]))
                        else F idx)"
      using v by simp
  qed
  then show ?thesis using assms by (simp add: setitem_end_def Let_def cong: if_cong)
qed

subsection \<open>Tensors of rank 4\<close>

lemma bd_simps [simp]: "bd x x = x" "bd 1 y = y" "bd (Suc 0) y = y" "bd x 1 = x" "bd x (Suc 0) = x"
  by (auto simp: bd_def)

lemma bc_simps [simp]: "bc 1 i = 0" "bc (Suc 0) i = 0" "i < d \<Longrightarrow> bc d i = i"
  by (auto simp: bc_def)

lemma compat_simps [simp]: "compat x x" "compat 1 y" "compat (Suc 0) y" "compat x 1" "compat x (Suc 0)"
  by (auto simp: compat_def)

lemma bc_less: "compat x y \<Longrightarrow> i < bd x y \<Longrightarrow> bc x i < x"
  by (auto simp: compat_def bd_def bc_def)

lemma bc_less': "compat x y \<Longrightarrow> i < bd x y \<Longrightarrow> bc y i < y"
  by (auto simp: compat_def bd_def bc_def)

lemma bshape_same_length:
  "list_all2 compat xs ys \<Longrightarrow> bshape xs ys = Inr (map2 bd xs ys)"
proof -
  have "list_all2 compat xs ys \<Longrightarrow> bshape_rev xs ys = Inr (map2 bd xs ys)" for xs ys
  proof (induction xs ys rule: bshape_rev.induct)
    case (3 x xs y ys)
    then show ?case by (auto simp: compat_def bd_def)
  qed auto
  moreover assume a: "list_all2 compat xs ys"
  then have "list_all2 compat (rev xs) (rev ys)" by simp
  ultimately have "bshape_rev (rev xs) (rev ys) = Inr (map2 bd (rev xs) (rev ys))" by blast
  moreover have "length xs = length ys" using a by (rule list_all2_lengthD)
  ultimately show ?thesis by (simp add: bshape_def zip_rev rev_map)
qed

lemma mk4_cong [cong]:
  "a = a' \<Longrightarrow> b = b' \<Longrightarrow> c = c' \<Longrightarrow> d = d' \<Longrightarrow>
   (\<And>i0 i1 i2 i3. i0 < a' \<Longrightarrow> i1 < b' \<Longrightarrow> i2 < c' \<Longrightarrow> i3 < d' \<Longrightarrow> F i0 i1 i2 i3 = G i0 i1 i2 i3) \<Longrightarrow>
   mk4 a b c d F = mk4 a' b' c' d' G"
  unfolding mk4_def by (auto intro!: mk_cong)

lemma mk_eq_mk4:
  "(\<And>i0 i1 i2 i3. i0 < a \<Longrightarrow> i1 < b \<Longrightarrow> i2 < c \<Longrightarrow> i3 < d \<Longrightarrow> F [i0, i1, i2, i3] = G i0 i1 i2 i3) \<Longrightarrow>
   mk [a, b, c, d] F = mk4 a b c d G"
  unfolding mk4_def by (auto intro!: mk_cong)

lemma dims_mk4 [simp]: "dims (mk4 a b c d F) = [a, b, c, d]"
  by (simp add: mk4_def)

lemma elt_mk4 [simp]:
  "i0 < a \<Longrightarrow> i1 < b \<Longrightarrow> i2 < c \<Longrightarrow> i3 < d \<Longrightarrow> elt (mk4 a b c d F) [i0, i1, i2, i3] = F i0 i1 i2 i3"
  by (simp add: mk4_def)

lemma tensor_as_mk4:
  "wf t \<Longrightarrow> dims t = [a, b, c, d] \<Longrightarrow> t = mk4 a b c d (\<lambda>i0 i1 i2 i3. elt t [i0, i1, i2, i3])"
  using mk_elt[of t] mk_eq_mk4[of a b c d "elt t" "\<lambda>i0 i1 i2 i3. elt t [i0, i1, i2, i3]"] by simp

lemma unop_mk4: "unop f (mk4 a b c d F) = mk4 a b c d (\<lambda>i0 i1 i2 i3. f (F i0 i1 i2 i3))"
  by (simp add: mk4_def unop_mk)

lemma binop_mk4:
  assumes "compat a a'" "compat b b'" "compat c c'" "compat d d'"
  shows "binop f (mk4 a b c d F) (mk4 a' b' c' d' G)
    = Inr (mk4 (bd a a') (bd b b') (bd c c') (bd d d')
        (\<lambda>i0 i1 i2 i3. f (F (bc a i0) (bc b i1) (bc c i2) (bc d i3))
                          (G (bc a' i0) (bc b' i1) (bc c' i2) (bc d' i3))))"
proof -
  have "bshape [a, b, c, d] [a', b', c', d'] = Inr [bd a a', bd b b', bd c c', bd d d']"
    using assms by (simp add: bshape_same_length)
  note binop_mk[OF this]
  moreover have "mk [bd a a', bd b b', bd c c', bd d d'] H = mk4 (bd a a') (bd b b') (bd c c') (bd d d')
      (\<lambda>i0 i1 i2 i3. H [i0, i1, i2, i3])" for H
    by (rule mk_eq_mk4) simp
  ultimately show ?thesis
    unfolding mk4_def[of a] mk4_def[of a'] by (simp add: bidx_def bc_def)
qed

lemmas add_mk4 = binop_mk4[of _ _ _ _ _ _ _ _ "(+)", folded add_def]

lemmas sub_mk4 = binop_mk4[of _ _ _ _ _ _ _ _ "(-)", folded sub_def]

lemmas mul_mk4 = binop_mk4[of _ _ _ _ _ _ _ _ "(*)", folded mul_def]

lemma mT_mk4: "mT (mk4 a b c d F) = Inr (mk4 a b d c (\<lambda>i0 i1 i2 i3. F i0 i1 i3 i2))"
proof -
  have "mk [a, b, d, c] H = mk4 a b d c (\<lambda>i0 i1 i2 i3. H [i0, i1, i2, i3])" for H
    by (rule mk_eq_mk4) simp
  then show ?thesis
    unfolding mk4_def[of a b c d] by (simp add: mT_mk swap_last2_def)
qed

lemma slice_end2_mk4:
  assumes "py_slice c lo hi = (s, len)"
  shows "slice_end 2 (mk4 a b c d F) lo hi = Inr (mk4 a b len d (\<lambda>i0 i1 i2 i3. F i0 i1 (i2 + s) i3))"
proof -
  have "mk [a, b, len, d] H = mk4 a b len d (\<lambda>i0 i1 i2 i3. H [i0, i1, i2, i3])" for H
    by (rule mk_eq_mk4) simp
  then show ?thesis
    using slice_end_mk[of 2 "[a, b, c, d]" lo hi s len] assms
    unfolding mk4_def[of a b c d] by simp
qed

lemma py_slice_step: "t < L \<Longrightarrow> py_slice L (int t) (int t + 1) = (t, 1)"
  by (auto simp: py_slice_def Let_def)

lemma matmul_mk4:
  assumes "compat a a'" "compat b b'"
  shows "matmul (mk4 a b m n F) (mk4 a' b' n q G)
    = Inr (mk4 (bd a a') (bd b b') m q
        (\<lambda>i0 i1 i2 i3. \<Sum>j<n. F (bc a i0) (bc b i1) i2 j * G (bc a' i0) (bc b' i1) j i3))"
proof -
  have "bshape [a, b] [a', b'] = Inr [bd a a', bd b b']"
    using assms by (simp add: bshape_same_length)
  note matmul_mk[OF this, of m n _ q, simplified]
  moreover have "mk [bd a a', bd b b', m, q] H = mk4 (bd a a') (bd b b') m q
      (\<lambda>i0 i1 i2 i3. H [i0, i1, i2, i3])" for H
    by (rule mk_eq_mk4) simp
  ultimately show ?thesis
    unfolding mk4_def[of a] mk4_def[of a'] by (simp add: bidx_def bc_def)
qed

subsection \<open>The reference engine on tensors given by their components\<close>

lemma sum_lessThan_one [simp]: "(\<Sum>j<Suc 0. f j) = f 0" "(\<Sum>j<1. f j) = f 0"
  by simp_all

lemma recurrent_step:
  assumes "t < L" "Bw = B \<or> Bw = 1"
  shows "recurrent_loop (mk4 B H L K R) (mk4 B H L K Kf) (mk4 B H L V Vf) (mk4 Bw H L K W)
           (mk4 1 H 1 K U) (t # ts) outs (mk4 B H K V S)
       = recurrent_loop (mk4 B H L K R) (mk4 B H L K Kf) (mk4 B H L V Vf) (mk4 Bw H L K W)
           (mk4 1 H 1 K U) ts
           (outs @ [mk4 B H 1 V (\<lambda>b h z j. \<Sum>i<K. R b h (z + t) i * (S b h i j + U 0 h 0 i * (Kf b h t i * Vf b h t j)))])
           (mk4 B H K V (\<lambda>b h i j. W (bc Bw b) h t i * S b h i j + Kf b h t i * Vf b h t j))"
  using assms(2)
proof
  assume "Bw = B"
  then show ?thesis
    using assms(1)
    by (simp add: slice_end2_mk4 py_slice_step mT_mk4 matmul_mk4 mul_mk4 add_mk4)
next
  assume "Bw = 1"
  then show ?thesis
    using assms(1)
    by (simp add: slice_end2_mk4 py_slice_step mT_mk4 matmul_mk4 mul_mk4 add_mk4)
qed

lemma recurrent_loop_mk4:
  assumes "Bw = B \<or> Bw = 1" "t0 + n \<le> L"
  shows "recurrent_loop (mk4 B H L K R) (mk4 B H L K Kf) (mk4 B H L V Vf) (mk4 Bw H L K W)
           (mk4 1 H 1 K U) [t0..<t0 + n] outs
           (mk4 B H K V (spec_state Kf Vf (\<lambda>b. W (bc Bw b)) S t0))
       = Inr (outs @ map (\<lambda>t. mk4 B H 1 V
                 (\<lambda>b h z j. \<Sum>i<K. R b h (z + t) i *
                    (spec_state Kf Vf (\<lambda>b. W (bc Bw b)) S t b h i j
                     + U 0 h 0 i * (Kf b h t i * Vf b h t j))))
                 [t0..<t0 + n],
              mk4 B H K V (spec_state Kf Vf (\<lambda>b. W (bc Bw b)) S (t0 + n)))"
  using assms(2)
proof (induction n arbitrary: t0 outs)
  case 0
  then show ?case by simp
next
  case (Suc n)
  have lt: "t0 < L" using Suc.prems by simp
  have upt: "[t0..<t0 + Suc n] = t0 # [Suc t0..<Suc t0 + n]"
    by (simp add: upt_conv_Cons)
  have st: "mk4 B H K V (\<lambda>b h i j. W (bc Bw b) h t0 i * spec_state Kf Vf (\<lambda>b. W (bc Bw b)) S t0 b h i j
        + Kf b h t0 i * Vf b h t0 j)
      = mk4 B H K V (spec_state Kf Vf (\<lambda>b. W (bc Bw b)) S (Suc t0))"
    by simp
  show ?case
    unfolding upt recurrent_step[OF lt assms(1)] st
    using Suc.IH[of "Suc t0"] Suc.prems by (simp add: upt_conv_Cons)
qed

lemma cat2_mk4:
  "cat2 (mk4 a b c d F) (mk4 a b c' d G)
     = Inr (mk4 a b (c + c') d (\<lambda>i0 i1 i2 i3. if i2 < c then F i0 i1 i2 i3 else G i0 i1 (i2 - c) i3))"
proof -
  have "mk [a, b, c + c', d] H = mk4 a b (c + c') d (\<lambda>i0 i1 i2 i3. H [i0, i1, i2, i3])" for H
    by (rule mk_eq_mk4) simp
  then show ?thesis
    using cat2_mk[of "[a, b, c, d]" "[a, b, c', d]"]
    unfolding mk4_def[of a b c d] mk4_def[of a b c' d] by (simp cong: if_cong)
qed

lemma cat_list_mk4:
  "0 < n \<Longrightarrow> cat_list (map (\<lambda>t. mk4 a b 1 d (F t)) [t0..<t0 + n])
     = Inr (mk4 a b n d (\<lambda>i0 i1 i2 i3. F (t0 + i2) i0 i1 0 i3))"
proof (induction n arbitrary: t0)
  case 0
  then show ?case by simp
next
  case (Suc n)
  have upt: "[t0..<t0 + Suc n] = t0 # [Suc t0..<Suc t0 + n]"
    by (simp add: upt_conv_Cons)
  show ?case
  proof (cases "n = 0")
    case True
    have "mk4 a b (Suc 0) d (F t0) = mk4 a b (Suc 0) d (\<lambda>i0 i1 i2 i3. F (t0 + i2) i0 i1 0 i3)"
      by (rule mk4_cong) auto
    then show ?thesis using True by simp
  next
    case False
    then have ih: "cat_list (map (\<lambda>t. mk4 a b 1 d (F t)) [Suc t0..<Suc t0 + n])
     = Inr (mk4 a b n d (\<lambda>i0 i1 i2 i3. F (Suc t0 + i2) i0 i1 0 i3))"
      using Suc.IH[of "Suc t0"] by simp
    obtain x xs where xs: "map (\<lambda>t. mk4 a b 1 d (F t)) [Suc t0..<Suc t0 + n] = x # xs"
      using False by (cases "map (\<lambda>t. mk4 a b 1 d (F t)) [Suc t0..<Suc t0 + n]") auto
    have "cat_list (map (\<lambda>t. mk4 a b 1 d (F t)) [t0..<t0 + Suc n])
        = bnd (cat_list (map (\<lambda>t. mk4 a b 1 d (F t)) [Suc t0..<Suc t0 + n])) (cat2 (mk4 a b 1 d (F t0)))"
      unfolding upt list.map xs by simp
    also have "\<dots> = cat2 (mk4 a b 1 d (F t0)) (mk4 a b n d (\<lambda>i0 i1 i2 i3. F (Suc t0 + i2) i0 i1 0 i3))"
      unfolding ih by simp
    also have "\<dots> = Inr (mk4 a b (Suc n) d (\<lambda>i0 i1 i2 i3. F (t0 + i2) i0 i1 0 i3))"
      unfolding cat2_mk4
      by (simp, rule mk4_cong) (auto simp: less_Suc_eq_0_disj)
    finally show ?thesis .
  qed
qed

lemma rwkv5_1_recurrent_mk4:
  assumes "Bw = B \<or> Bw = 1" "0 < L"
  shows "rwkv5_1_recurrent (mk4 B H L K R) (mk4 B H L K Kf) (mk4 B H L V Vf) (mk4 Bw H L K W)
           (mk4 1 H 1 K U) (mk4 B H K V S)
       = Inr (mk4 B H L V (\<lambda>b h t j. spec_out K R Kf Vf (\<lambda>b. W (bc Bw b)) (\<lambda>h. U 0 h 0) S b h t j),
              mk4 B H K V (spec_state Kf Vf (\<lambda>b. W (bc Bw b)) S L))"
proof -
  have "recurrent_loop (mk4 B H L K R) (mk4 B H L K Kf) (mk4 B H L V Vf) (mk4 Bw H L K W)
           (mk4 1 H 1 K U) [0..<0 + L] []
           (mk4 B H K V (spec_state Kf Vf (\<lambda>b. W (bc Bw b)) S 0))
       = Inr ([] @ map (\<lambda>t. mk4 B H 1 V
                 (\<lambda>b h z j. \<Sum>i<K. R b h (z + t) i *
                    (spec_state Kf Vf (\<lambda>b. W (bc Bw b)) S t b h i j
                     + U 0 h 0 i * (Kf b h t i * Vf b h t j))))
                 [0..<0 + L],
              mk4 B H K V (spec_state Kf Vf (\<lambda>b. W (bc Bw b)) S (0 + L)))"
    by (rule recurrent_loop_mk4[OF assms(1)]) simp
  moreover have "mk4 B H K V (spec_state Kf Vf (\<lambda>b. W (bc Bw b)) S 0) = mk4 B H K V S"
    by simp
  ultimately show ?thesis
    using cat_list_mk4[OF assms(2), of B H V _ 0]
    by (simp add: rwkv5_1_recurrent_def size_end_def spec_out_def)
qed

subsection \<open>The reference engine on two consecutive segments\<close>




subsection \<open>Chunks of odd length\<close>

lemma view_InrD:
  assumes "view t sizes = Inr t'" "\<forall>s \<in> set sizes. 0 \<le> s"
  shows "prod_list (map nat sizes) = prod_list (dims t) \<and> dims t' = map nat sizes"
  using assms no_minus_one[of sizes] by (auto simp: view_def Let_def split: if_splits)

lemma view_neg_fails:
  "s \<in> set sizes \<Longrightarrow> s < - 1 \<Longrightarrow> view t sizes = Inl RuntimeError"
  by (auto simp: view_def Let_def)

lemma cumsum2_dims: "cumsum2 t = Inr c \<Longrightarrow> dims c = dims t"
  by (auto simp: cumsum2_def Let_def split: if_splits)

lemma dims_unop [simp]: "dims (unop f t) = dims t"
  by (simp add: unop_def)

lemma chunk_views_odd:
  assumes v1: "view t [int Bw, int H, N, T, int K] = Inr wc"
    and c: "cumsum2 wc = Inr c"
    and v2: "view c [int Bw, int H, N, 2, T div 2, int K] = Inr x"
    and ne: "prod_list (dims t) \<noteq> 0" and odd: "odd T" and pos: "0 < T" "0 \<le> N"
  shows False
proof -
  have a: "Bw * (H * (nat N * (nat T * K))) = prod_list (dims t)"
    and dwc: "dims wc = [Bw, H, nat N, nat T, K]"
    using view_InrD[OF v1] pos by simp_all
  have dc: "dims c = [Bw, H, nat N, nat T, K]" using cumsum2_dims[OF c] dwc by simp
  have b: "Bw * (H * (nat N * (2 * (nat (T div 2) * K)))) = Bw * (H * (nat N * (nat T * K)))"
    using view_InrD[OF v2] pos dc by simp
  have "Bw * (H * (nat N * (nat T * K))) \<noteq> 0" using a ne by simp
  then have nz: "Bw \<noteq> 0" "H \<noteq> 0" "nat N \<noteq> 0" "K \<noteq> 0"
    by simp_all
  have "2 * nat (T div 2) = nat T" using b nz by simp
  then have "even (nat T)" by (metis dvd_triv_left)
  then show False using odd pos by (simp add: even_nat_iff)
qed

lemma odd_chunk_raises:
  assumes dk: "dims k = [B, H, L, K]" and L: "1 < L"
    and ne: "prod_list (dims w) \<noteq> 0"
    and odd: "int L mod chunk_len \<noteq> 0 \<or> odd chunk_len"
  shows "isl (rwkv_inner r k v w u kv_state chunk_len precision_dtype)"
proof (rule ccontr)
  assume "\<not> isl (rwkv_inner r k v w u kv_state chunk_len precision_dtype)"
  then obtain y where y: "rwkv_inner r k v w u kv_state chunk_len precision_dtype = Inr y"
    by (cases "rwkv_inner r k v w u kv_state chunk_len precision_dtype") auto
  define T where "T = (if int L mod chunk_len \<noteq> 0 then 1 else chunk_len)"
  define N where "N = int L div T"
  define w_log where "w_log = log_t (clamp (precision_min_val precision_dtype) w)"
  have c0: "chunk_len \<noteq> 0"
    using y dk L by (auto simp: rwkv_inner_def bnd_eq_Inr_iff py_mod_def split: if_splits)
  have oddT: "odd T" using odd by (auto simp: T_def)
  have "\<exists>Bw wc c x. view w_log [int Bw, int H, N, T, int K] = Inr wc \<and> cumsum2 wc = Inr c
      \<and> view c [int Bw, int H, N, 2, T div 2, int K] = Inr x"
    using y dk L c0 unfolding rwkv_inner_def T_def N_def w_log_def Let_def
    by (simp add: bnd_eq_Inr_iff py_mod_def py_floordiv_def split: if_splits; (elim exE conjE)?; blast)
  then obtain Bw wc c x where v1: "view w_log [int Bw, int H, N, T, int K] = Inr wc"
    and c: "cumsum2 wc = Inr c"
    and v2: "view c [int Bw, int H, N, 2, T div 2, int K] = Inr x"
    by blast
  have dw: "prod_list (dims w_log) \<noteq> 0" using ne by (simp add: w_log_def log_t_def clamp_def)
  show False
  proof (cases "0 < T")
    case True
    then have "0 \<le> N" using L by (simp add: N_def pos_imp_zdiv_nonneg_iff)
    then show False using chunk_views_odd[OF v1 c v2 dw oddT True] by simp
  next
    case False
    then have Tneg: "T < 0" using oddT by (cases "T = 0") auto
    have "T < - 1 \<or> N < - 1"
    proof (cases "T = - 1")
      case True
      then show ?thesis using L by (simp add: N_def)
    next
      case False
      then show ?thesis using Tneg by simp
    qed
    then show False
      using view_neg_fails[of T "[int Bw, int H, N, T, int K]" w_log]
        view_neg_fails[of N "[int Bw, int H, N, T, int K]" w_log] v1 by auto
  qed
qed

lemma comp4_eta: "(\<lambda>i0 i1 i2 i3. elt t [i0, i1, i2, i3]) = comp4 t"
  by (simp add: comp4_def fun_eq_iff)


subsection \<open>What raises depends on the shapes only\<close>

lemma rel_sum_eq_iff: "rel_sum (=) A x y \<longleftrightarrow> (\<exists>e. x = Inl e \<and> y = Inl e) \<or> (\<exists>a b. x = Inr a \<and> y = Inr b \<and> A a b)"
  by (cases x; cases y) auto

lemma bnd_transfer [transfer_rule]:
  "rel_fun (rel_sum (=) A) (rel_fun (rel_fun A (rel_sum (=) B)) (rel_sum (=) B)) bnd bnd"
proof (intro rel_funI)
  fix m m' :: "error + 'a" and f :: "'a \<Rightarrow> error + 'c" and g :: "'b \<Rightarrow> error + 'd" and m'' :: "error + 'b"
  assume "rel_sum (=) A m m''" "rel_fun A (rel_sum (=) B) f g"
  then show "rel_sum (=) B (bnd m f) (bnd m'' g)"
    by (cases m; cases m'') (auto simp: rel_fun_def)
qed

lemma list_all2_ex_dims:
  "list_all2 same_dims xs ys \<Longrightarrow> (\<exists>s \<in> set xs. dims s \<noteq> d) = (\<exists>s \<in> set ys. dims s \<noteq> d)"
  by (induction rule: list_all2_induct) (auto simp: same_dims_def)

lemma dims_transfer [transfer_rule]: "rel_fun same_dims (=) dims dims"
  by (simp add: rel_fun_def same_dims_def)

lemma same_dims_mk [simp]: "same_dims (mk ds f) (mk ds g)"
  by (simp add: same_dims_def)

lemma binop_transfer:
  "rel_fun same_dims (rel_fun same_dims (rel_sum (=) same_dims)) (binop f) (binop g)"
  unfolding rel_fun_def
  by (auto simp: same_dims_def binop_def rel_sum_eq_iff bnd_def split: sum.splits)

lemma add_transfer [transfer_rule]:
  "rel_fun same_dims (rel_fun same_dims (rel_sum (=) same_dims)) add add"
  unfolding add_def by (rule binop_transfer)

lemma sub_transfer [transfer_rule]:
  "rel_fun same_dims (rel_fun same_dims (rel_sum (=) same_dims)) sub sub"
  unfolding sub_def by (rule binop_transfer)

lemma mul_transfer [transfer_rule]:
  "rel_fun same_dims (rel_fun same_dims (rel_sum (=) same_dims)) mul mul"
  unfolding mul_def by (rule binop_transfer)

lemma unop_transfer: "rel_fun same_dims same_dims (unop f) (unop g)"
  by (simp add: rel_fun_def same_dims_def unop_def)

lemma clamp_transfer [transfer_rule]: "rel_fun (=) (rel_fun same_dims same_dims) clamp clamp"
  unfolding clamp_def using unop_transfer by (auto simp: rel_fun_def)

lemma log_t_transfer [transfer_rule]: "rel_fun same_dims same_dims log_t log_t"
  unfolding log_t_def by (rule unop_transfer)

lemma exp_t_transfer [transfer_rule]: "rel_fun same_dims same_dims exp_t exp_t"
  unfolding exp_t_def by (rule unop_transfer)

lemma zeros_like_transfer [transfer_rule]: "rel_fun same_dims same_dims zeros_like zeros_like"
  unfolding zeros_like_def by (rule unop_transfer)

lemma view_transfer [transfer_rule]:
  "rel_fun same_dims (rel_fun (=) (rel_sum (=) same_dims)) view view"
  unfolding rel_fun_def by (auto simp: same_dims_def view_def Let_def rel_sum_eq_iff)

lemma size_end_transfer [transfer_rule]:
  "rel_fun (=) (rel_fun same_dims (rel_sum (=) (=))) size_end size_end"
  unfolding rel_fun_def by (auto simp: same_dims_def size_end_def rel_sum_eq_iff)

lemma size_first_transfer [transfer_rule]:
  "rel_fun same_dims (rel_sum (=) (=)) size_first size_first"
  unfolding rel_fun_def by (auto simp: same_dims_def size_first_def rel_sum_eq_iff)

lemma mT_transfer [transfer_rule]: "rel_fun same_dims (rel_sum (=) same_dims) mT mT"
  unfolding rel_fun_def by (auto simp: same_dims_def mT_def rel_sum_eq_iff)

lemma unsqueeze_transfer [transfer_rule]:
  "rel_fun (=) (rel_fun same_dims (rel_sum (=) same_dims)) unsqueeze unsqueeze"
  unfolding rel_fun_def by (auto simp: same_dims_def unsqueeze_def rel_sum_eq_iff)

lemma slice_end_transfer [transfer_rule]:
  "rel_fun (=) (rel_fun same_dims (rel_fun (=) (rel_fun (=) (rel_sum (=) same_dims)))) slice_end slice_end"
  unfolding rel_fun_def
  by (auto simp: same_dims_def slice_end_def Let_def rel_sum_eq_iff split: prod.splits)

lemma setitem_end_transfer [transfer_rule]:
  "rel_fun (=) (rel_fun same_dims (rel_fun (=) (rel_fun (=) (rel_fun same_dims (rel_sum (=) same_dims)))))
     setitem_end setitem_end"
  unfolding rel_fun_def
  by (auto simp: same_dims_def setitem_end_def Let_def rel_sum_eq_iff split: prod.splits)

lemma cat2_transfer [transfer_rule]:
  "rel_fun same_dims (rel_fun same_dims (rel_sum (=) same_dims)) cat2 cat2"
  unfolding rel_fun_def by (auto simp: same_dims_def cat2_def Let_def rel_sum_eq_iff)

lemma cumsum2_transfer [transfer_rule]: "rel_fun same_dims (rel_sum (=) same_dims) cumsum2 cumsum2"
  unfolding rel_fun_def by (auto simp: same_dims_def cumsum2_def Let_def rel_sum_eq_iff)

lemma sum2_keepdim_transfer [transfer_rule]:
  "rel_fun same_dims (rel_sum (=) same_dims) sum2_keepdim sum2_keepdim"
  unfolding rel_fun_def by (auto simp: same_dims_def sum2_keepdim_def Let_def rel_sum_eq_iff)

lemma bmm_rel: "dims a = dims a' \<Longrightarrow> dims b = dims b' \<Longrightarrow> rel_sum (=) same_dims (bmm a b) (bmm a' b')"
  by (auto simp: same_dims_def bmm_def Let_def rel_sum_eq_iff bnd_def split: sum.splits)

lemma matmul_transfer [transfer_rule]:
  "rel_fun same_dims (rel_fun same_dims (rel_sum (=) same_dims)) matmul matmul"
  unfolding rel_fun_def
proof (intro allI impI)
  fix a a' b b' assume sd: "same_dims a a'" "same_dims b b'"
  let ?a = "if length (dims a) = 1 then a\<lparr>dims := 1 # dims a\<rparr> else a"
  let ?a' = "if length (dims a') = 1 then a'\<lparr>dims := 1 # dims a'\<rparr> else a'"
  let ?b = "if length (dims b) = 1 then b\<lparr>dims := dims b @ [1]\<rparr> else b"
  let ?b' = "if length (dims b') = 1 then b'\<lparr>dims := dims b' @ [1]\<rparr> else b'"
  have "rel_sum (=) same_dims (bmm ?a ?b) (bmm ?a' ?b')"
    using sd by (intro bmm_rel) (auto simp: same_dims_def)
  then show "rel_sum (=) same_dims (matmul a b) (matmul a' b')"
    using sd unfolding matmul_def Let_def
    by (auto simp: same_dims_def rel_sum_eq_iff)
qed

lemma tril_m1_transfer [transfer_rule]: "rel_fun same_dims (rel_sum (=) same_dims) tril_m1 tril_m1"
  unfolding rel_fun_def by (auto simp: same_dims_def tril_m1_def Let_def rel_sum_eq_iff)

lemma diag_embed_transfer [transfer_rule]:
  "rel_fun same_dims (rel_sum (=) same_dims) diag_embed diag_embed"
  unfolding rel_fun_def by (auto simp: same_dims_def diag_embed_def Let_def rel_sum_eq_iff)

lemma einsum_bhnztk_transfer [transfer_rule]:
  "rel_fun same_dims (rel_fun same_dims (rel_sum (=) same_dims)) einsum_bhnztk einsum_bhnztk"
  unfolding rel_fun_def
  by (auto simp: same_dims_def einsum_bhnztk_def rel_sum_eq_iff bnd_def split: sum.splits)

lemma unbind3_transfer [transfer_rule]:
  "rel_fun same_dims (rel_sum (=) (list_all2 same_dims)) unbind3 unbind3"
  unfolding rel_fun_def
  by (auto simp: same_dims_def unbind3_def Let_def rel_sum_eq_iff list_all2_conv_all_nth)

lemma stack2_transfer [transfer_rule]:
  "rel_fun (list_all2 same_dims) (rel_sum (=) same_dims) stack2 stack2"
  unfolding rel_fun_def
proof (intro allI impI)
  fix ts ts' assume l: "list_all2 same_dims ts ts'"
  show "rel_sum (=) same_dims (stack2 ts) (stack2 ts')"
  proof (cases ts)
    case Nil
    then show ?thesis using l by (simp add: stack2_def)
  next
    case (Cons t us)
    then obtain t' us' where c': "ts' = t' # us'" and tt: "dims t = dims t'"
      and r: "list_all2 same_dims us us'"
      using l by (auto simp: list_all2_Cons1 same_dims_def)
    have len: "length ts = length ts'" using l by (rule list_all2_lengthD)
    have "(\<exists>s \<in> set ts. dims s \<noteq> dims t) = (\<exists>s \<in> set ts'. dims s \<noteq> dims t')"
      using list_all2_ex_dims[OF l, of "dims t"] tt by simp
    then show ?thesis
      using Cons c' tt len by (auto simp: stack2_def same_dims_def)
  qed
qed

lemma getitem_transfer [transfer_rule]:
  "rel_fun (list_all2 A) (rel_fun (=) (rel_sum (=) A)) getitem getitem"
  unfolding rel_fun_def by (auto simp: getitem_def list_all2_conv_all_nth)

lemma state_loop_transfer [transfer_rule]:
  "rel_fun (list_all2 same_dims) (rel_fun (list_all2 same_dims) (rel_fun (=)
     (rel_fun (list_all2 same_dims) (rel_fun same_dims
        (rel_sum (=) (rel_prod (list_all2 same_dims) same_dims))))))
     state_loop state_loop"
proof -
  have "rel_sum (=) (rel_prod (list_all2 same_dims) same_dims)
      (state_loop ws wkv is states s) (state_loop ws' wkv' is states' s')"
    if "list_all2 same_dims ws ws'" "list_all2 same_dims wkv wkv'"
      "list_all2 same_dims states states'" "same_dims s s'"
    for ws ws' wkv wkv' "is" states states' s s'
    using that
  proof (induction "is" arbitrary: states states' s s')
    case Nil
    then show ?case by simp
  next
    case (Cons i "is")
    note [transfer_rule] = Cons.prems Cons.IH
    have "rel_fun (list_all2 same_dims) (rel_fun same_dims
        (rel_sum (=) (rel_prod (list_all2 same_dims) same_dims)))
        (state_loop ws wkv is) (state_loop ws' wkv' is)"
      using Cons.IH Cons.prems(1,2) by (auto simp: rel_fun_def)
    note [transfer_rule] = this
    show ?case
      unfolding state_loop.simps by transfer_prover
  qed
  then show ?thesis by (auto simp: rel_fun_def)
qed



subsection \<open>The views of the chunked path\<close>

lemma unsqueeze_dims: "unsqueeze d t = Inr t' \<Longrightarrow> dims t' = take d (dims t) @ [1] @ drop d (dims t)"
  by (auto simp: unsqueeze_def split: if_splits)

lemma chunked_views:
  assumes y: "rwkv_inner r k v w u kv_state chunk_len precision_dtype = Inr y"
    and dk: "dims k = [B, H, L, K]" and L: "1 < L"
  defines "T \<equiv> (if int L mod chunk_len \<noteq> 0 then 1 else chunk_len)"
  shows "chunk_len \<noteq> 0 \<and>
    (\<exists>V Bw wc xr xv u' xu.
       size_end 1 v = Inr V
       \<and> view (log_t (clamp (precision_min_val precision_dtype) w)) [int Bw, int H, int L div T, T, int K] = Inr wc
       \<and> view r [int B, int H, int L div T, T, int K] = Inr xr
       \<and> view v [int B, int H, int L div T, T, int V] = Inr xv
       \<and> unsqueeze 2 u = Inr u'
       \<and> view u' [1, int H, 1, 1, 1, int K] = Inr xu)"
proof
  show c0: "chunk_len \<noteq> 0"
    using y dk L by (auto simp: rwkv_inner_def bnd_eq_Inr_iff py_mod_def split: if_splits)
  show "\<exists>V Bw wc xr xv u' xu.
       size_end 1 v = Inr V
       \<and> view (log_t (clamp (precision_min_val precision_dtype) w)) [int Bw, int H, int L div T, T, int K] = Inr wc
       \<and> view r [int B, int H, int L div T, T, int K] = Inr xr
       \<and> view v [int B, int H, int L div T, T, int V] = Inr xv
       \<and> unsqueeze 2 u = Inr u'
       \<and> view u' [1, int H, 1, 1, 1, int K] = Inr xu"
    using y dk L c0 unfolding rwkv_inner_def T_def Let_def
    by (simp add: bnd_eq_Inr_iff py_mod_def py_floordiv_def split: if_splits; (elim exE conjE)?; blast)
qed

lemma chunk_view_neg:
  assumes "view t [int B, int H, int L div T, T, int K] = Inr x" "1 < L" "T \<noteq> 0"
  shows "0 < T"
proof (rule ccontr)
  assume "\<not> 0 < T"
  then have Tneg: "T < 0" using assms(3) by simp
  have "T < - 1 \<or> int L div T < - 1"
  proof (cases "T = - 1")
    case True
    then show ?thesis using assms(2) by simp
  next
    case False
    then show ?thesis using Tneg by simp
  qed
  then show False
    using view_neg_fails[of T "[int B, int H, int L div T, T, int K]" t]
      view_neg_fails[of "int L div T" "[int B, int H, int L div T, T, int K]" t] assms(1) by auto
qed

lemma chunk_view_numel:
  assumes v: "view t [int B, int H, int L div T, T, int K] = Inr x" and L: "1 < L" and T0: "T \<noteq> 0"
    and dv: "int L mod T = 0"
  shows "prod_list (dims t) = B * H * L * K"
proof -
  have Tpos: "0 < T" using chunk_view_neg[OF v L T0] .
  have N: "0 \<le> int L div T" using Tpos by (simp add: pos_imp_zdiv_nonneg_iff)
  have "nat (int L div T) * nat T = L"
  proof -
    have "int L div T * T = int L" using dv by (simp add: mod_0_imp_dvd)
    then have "int (nat (int L div T) * nat T) = int L" using N Tpos by simp
    then show ?thesis by linarith
  qed
  moreover have "B * (H * (nat (int L div T) * (nat T * K))) = prod_list (dims t)"
    using view_InrD[OF v] N Tpos by simp
  ultimately show ?thesis by (metis mult.assoc)
qed

lemma contract_violation_raises:
  assumes dk: "dims k = [B, H, L, K]" and L: "1 < L"
    and bad: "chunk_len = 0
       \<or> (chunk_len < 0 \<and> int L mod chunk_len = 0)
       \<or> (dims r = [B, H, L, Kr] \<and> Kr \<noteq> K \<and> B * H \<noteq> 0)
       \<or> (dims v = [B, Hv, L, V] \<and> Hv \<noteq> H \<and> B * V \<noteq> 0)
       \<or> (dims u = [1, Hu, 1, K] \<and> Hu \<noteq> H \<and> K \<noteq> 0)"
  shows "isl (rwkv_inner r k v w u kv_state chunk_len precision_dtype)"
proof (rule ccontr)
  assume "\<not> isl (rwkv_inner r k v w u kv_state chunk_len precision_dtype)"
  then obtain y where y: "rwkv_inner r k v w u kv_state chunk_len precision_dtype = Inr y"
    by (cases "rwkv_inner r k v w u kv_state chunk_len precision_dtype") auto
  define T where "T = (if int L mod chunk_len \<noteq> 0 then 1 else chunk_len)"
  note cv = chunked_views[OF y dk L, folded T_def]
  then obtain V' Bw wc xr xv u' xu where c0: "chunk_len \<noteq> 0"
    and sv: "size_end 1 v = Inr V'"
    and vw: "view (log_t (clamp (precision_min_val precision_dtype) w)) [int Bw, int H, int L div T, T, int K] = Inr wc"
    and vr: "view r [int B, int H, int L div T, T, int K] = Inr xr"
    and vv: "view v [int B, int H, int L div T, T, int V'] = Inr xv"
    and uu: "unsqueeze 2 u = Inr u'"
    and vu: "view u' [1, int H, 1, 1, 1, int K] = Inr xu"
    by blast
  have T0: "T \<noteq> 0" using c0 by (simp add: T_def)
  have dv: "int L mod T = 0" by (simp add: T_def)
  have Tpos: "0 < T" using chunk_view_neg[OF vr L T0] .
  from bad show False
  proof (elim disjE conjE)
    assume "chunk_len = 0"
    then show False using c0 by simp
  next
    assume "chunk_len < 0" "int L mod chunk_len = 0"
    then show False using Tpos by (simp add: T_def)
  next
    assume "dims r = [B, H, L, Kr]" "Kr \<noteq> K" "B * H \<noteq> 0"
    then show False using chunk_view_numel[OF vr L T0 dv] L by simp
  next
    assume d: "dims v = [B, Hv, L, V]" "Hv \<noteq> H" "B * V \<noteq> 0"
    then have "V' = V" using sv by (simp add: size_end_def)
    then show False using chunk_view_numel[OF vv L T0 dv] L d by simp
  next
    assume d: "dims u = [1, Hu, 1, K]" "Hu \<noteq> H" "K \<noteq> 0"
    have "dims u' = [1, Hu, 1, 1, K]" using unsqueeze_dims[OF uu] d by simp
    then show False using view_InrD[OF vu] d by simp
  qed
qed

subsection \<open>Tensors of rank 5 and 6\<close>

lemma mk4_eqI:
  "(\<And>i0 i1 i2 i3. i0 < a \<Longrightarrow> i1 < b \<Longrightarrow> i2 < c \<Longrightarrow> i3 < d \<Longrightarrow> F i0 i1 i2 i3 = G i0 i1 i2 i3) \<Longrightarrow>
   mk4 a b c d F = mk4 a b c d G"
  by (rule mk4_cong) simp_all

lemma mk5_eqI:
  "(\<And>i0 i1 i2 i3 i4. i0 < a \<Longrightarrow> i1 < b \<Longrightarrow> i2 < c \<Longrightarrow> i3 < d \<Longrightarrow> i4 < e \<Longrightarrow>
      F i0 i1 i2 i3 i4 = G i0 i1 i2 i3 i4) \<Longrightarrow>
   mk5 a b c d e F = mk5 a b c d e G"
  unfolding mk5_def by (auto intro!: mk_cong)

lemma mk6_eqI:
  "(\<And>i0 i1 i2 i3 i4 i5. i0 < a \<Longrightarrow> i1 < b \<Longrightarrow> i2 < c \<Longrightarrow> i3 < d \<Longrightarrow> i4 < e \<Longrightarrow> i5 < f \<Longrightarrow>
      F i0 i1 i2 i3 i4 i5 = G i0 i1 i2 i3 i4 i5) \<Longrightarrow>
   mk6 a b c d e f F = mk6 a b c d e f G"
  unfolding mk6_def by (auto intro!: mk_cong)

lemma mk5_cong [cong]:
  "a = a' \<Longrightarrow> b = b' \<Longrightarrow> c = c' \<Longrightarrow> d = d' \<Longrightarrow> e = e' \<Longrightarrow>
   (\<And>i0 i1 i2 i3 i4. i0 < a' \<Longrightarrow> i1 < b' \<Longrightarrow> i2 < c' \<Longrightarrow> i3 < d' \<Longrightarrow> i4 < e' \<Longrightarrow>
      F i0 i1 i2 i3 i4 = G i0 i1 i2 i3 i4) \<Longrightarrow>
   mk5 a b c d e F = mk5 a' b' c' d' e' G"
  using mk5_eqI[of a' b' c' d' e' F G] by simp

lemma mk6_cong [cong]:
  "a = a' \<Longrightarrow> b = b' \<Longrightarrow> c = c' \<Longrightarrow> d = d' \<Longrightarrow> e = e' \<Longrightarrow> f = f' \<Longrightarrow>
   (\<And>i0 i1 i2 i3 i4 i5. i0 < a' \<Longrightarrow> i1 < b' \<Longrightarrow> i2 < c' \<Longrightarrow> i3 < d' \<Longrightarrow> i4 < e' \<Longrightarrow> i5 < f' \<Longrightarrow>
      F i0 i1 i2 i3 i4 i5 = G i0 i1 i2 i3 i4 i5) \<Longrightarrow>
   mk6 a b c d e f F = mk6 a' b' c' d' e' f' G"
  using mk6_eqI[of a' b' c' d' e' f' F G] by simp

lemma mk_eq_mk5:
  "(\<And>i0 i1 i2 i3 i4. i0 < a \<Longrightarrow> i1 < b \<Longrightarrow> i2 < c \<Longrightarrow> i3 < d \<Longrightarrow> i4 < e \<Longrightarrow>
      F [i0, i1, i2, i3, i4] = G i0 i1 i2 i3 i4) \<Longrightarrow>
   mk [a, b, c, d, e] F = mk5 a b c d e G"
  unfolding mk5_def by (auto intro!: mk_cong)

lemma mk_eq_mk6:
  "(\<And>i0 i1 i2 i3 i4 i5. i0 < a \<Longrightarrow> i1 < b \<Longrightarrow> i2 < c \<Longrightarrow> i3 < d \<Longrightarrow> i4 < e \<Longrightarrow> i5 < f \<Longrightarrow>
      F [i0, i1, i2, i3, i4, i5] = G i0 i1 i2 i3 i4 i5) \<Longrightarrow>
   mk [a, b, c, d, e, f] F = mk6 a b c d e f G"
  unfolding mk6_def by (auto intro!: mk_cong)

lemma mk5_alt: "mk [a, b, c, d, e] H = mk5 a b c d e (\<lambda>i0 i1 i2 i3 i4. H [i0, i1, i2, i3, i4])"
  by (rule mk_eq_mk5) simp

lemma mk6_alt:
  "mk [a, b, c, d, e, f] H = mk6 a b c d e f (\<lambda>i0 i1 i2 i3 i4 i5. H [i0, i1, i2, i3, i4, i5])"
  by (rule mk_eq_mk6) simp

lemma mk4_alt: "mk [a, b, c, d] H = mk4 a b c d (\<lambda>i0 i1 i2 i3. H [i0, i1, i2, i3])"
  by (rule mk_eq_mk4) simp

lemma dims_mk5 [simp]: "dims (mk5 a b c d e F) = [a, b, c, d, e]"
  by (simp add: mk5_def)

lemma dims_mk6 [simp]: "dims (mk6 a b c d e f F) = [a, b, c, d, e, f]"
  by (simp add: mk6_def)

lemma unop_mk5: "unop g (mk5 a b c d e F) = mk5 a b c d e (\<lambda>i0 i1 i2 i3 i4. g (F i0 i1 i2 i3 i4))"
  by (simp add: mk5_def unop_mk)

lemma unop_mk6:
  "unop g (mk6 a b c d e f F) = mk6 a b c d e f (\<lambda>i0 i1 i2 i3 i4 i5. g (F i0 i1 i2 i3 i4 i5))"
  by (simp add: mk6_def unop_mk)

lemma bidx_Nil [simp]: "bidx [] [] = []"
  by (simp add: bidx_def)

lemma bidx_Cons [simp]: "length ds = length js \<Longrightarrow> bidx (d # ds) (i # js) = bc d i # bidx ds js"
  by (simp add: bidx_def bc_def)

lemma binop_mk5:
  assumes "compat a a'" "compat b b'" "compat c c'" "compat d d'" "compat e e'"
  shows "binop g (mk5 a b c d e F) (mk5 a' b' c' d' e' G)
    = Inr (mk5 (bd a a') (bd b b') (bd c c') (bd d d') (bd e e')
        (\<lambda>i0 i1 i2 i3 i4. g (F (bc a i0) (bc b i1) (bc c i2) (bc d i3) (bc e i4))
                             (G (bc a' i0) (bc b' i1) (bc c' i2) (bc d' i3) (bc e' i4))))"
proof -
  have "bshape [a, b, c, d, e] [a', b', c', d', e']
      = Inr [bd a a', bd b b', bd c c', bd d d', bd e e']"
    using assms by (simp add: bshape_same_length)
  note * = binop_mk[OF this]
  show ?thesis
    unfolding mk5_def by (simp add: *; rule mk_cong; clarsimp)
qed

lemmas add_mk5 = binop_mk5[of _ _ _ _ _ _ _ _ _ _ "(+)", folded add_def]
lemmas sub_mk5 = binop_mk5[of _ _ _ _ _ _ _ _ _ _ "(-)", folded sub_def]
lemmas mul_mk5 = binop_mk5[of _ _ _ _ _ _ _ _ _ _ "(*)", folded mul_def]

lemma binop_mk6:
  assumes "compat a a'" "compat b b'" "compat c c'" "compat d d'" "compat e e'" "compat f f'"
  shows "binop g (mk6 a b c d e f F) (mk6 a' b' c' d' e' f' G)
    = Inr (mk6 (bd a a') (bd b b') (bd c c') (bd d d') (bd e e') (bd f f')
        (\<lambda>i0 i1 i2 i3 i4 i5. g (F (bc a i0) (bc b i1) (bc c i2) (bc d i3) (bc e i4) (bc f i5))
                             (G (bc a' i0) (bc b' i1) (bc c' i2) (bc d' i3) (bc e' i4) (bc f' i5))))"
proof -
  have "bshape [a, b, c, d, e, f] [a', b', c', d', e', f']
      = Inr [bd a a', bd b b', bd c c', bd d d', bd e e', bd f f']"
    using assms by (simp add: bshape_same_length)
  note * = binop_mk[OF this]
  show ?thesis
    unfolding mk6_def by (simp add: *; rule mk_cong; clarsimp)
qed

lemmas add_mk6 = binop_mk6[of _ _ _ _ _ _ _ _ _ _ _ _ "(+)", folded add_def]
lemmas sub_mk6 = binop_mk6[of _ _ _ _ _ _ _ _ _ _ _ _ "(-)", folded sub_def]
lemmas mul_mk6 = binop_mk6[of _ _ _ _ _ _ _ _ _ _ _ _ "(*)", folded mul_def]

lemma mT_mk5: "mT (mk5 a b c d e F) = Inr (mk5 a b c e d (\<lambda>i0 i1 i2 i3 i4. F i0 i1 i2 i4 i3))"
  unfolding mk5_def by (simp add: mT_mk swap_last2_def; rule mk_cong; auto)

lemma mT_mk6:
  "mT (mk6 a b c d e f F) = Inr (mk6 a b c d f e (\<lambda>i0 i1 i2 i3 i4 i5. F i0 i1 i2 i3 i5 i4))"
  unfolding mk6_def by (simp add: mT_mk swap_last2_def; rule mk_cong; auto)

lemma slice_end2_mk5:
  assumes "py_slice d lo hi = (s, len)"
  shows "slice_end 2 (mk5 a b c d e F) lo hi
    = Inr (mk5 a b c len e (\<lambda>i0 i1 i2 i3 i4. F i0 i1 i2 (i3 + s) i4))"
proof -
  note * = slice_end_mk[of 2 "[a, b, c, d, e]" lo hi s len, simplified, OF assms]
  show ?thesis
    unfolding mk5_def by (simp add: *; rule mk_cong; auto)
qed

lemma slice_end2_mk6:
  assumes "py_slice e lo hi = (s, len)"
  shows "slice_end 2 (mk6 a b c d e f F) lo hi
    = Inr (mk6 a b c d len f (\<lambda>i0 i1 i2 i3 i4 i5. F i0 i1 i2 i3 (i4 + s) i5))"
proof -
  note * = slice_end_mk[of 2 "[a, b, c, d, e, f]" lo hi s len, simplified, OF assms]
  show ?thesis
    unfolding mk6_def by (simp add: *; rule mk_cong; auto)
qed

lemma slice_end3_mk6:
  assumes "py_slice d lo hi = (s, len)"
  shows "slice_end 3 (mk6 a b c d e f F) lo hi
    = Inr (mk6 a b c len e f (\<lambda>i0 i1 i2 i3 i4 i5. F i0 i1 i2 (i3 + s) i4 i5))"
proof -
  note * = slice_end_mk[of 3 "[a, b, c, d, e, f]" lo hi s len, simplified, OF assms]
  show ?thesis
    unfolding mk6_def by (simp add: *; rule mk_cong; auto)
qed

lemma cat2_mk5:
  "cat2 (mk5 a b c d e F) (mk5 a b c d' e G)
     = Inr (mk5 a b c (d + d') e
         (\<lambda>i0 i1 i2 i3 i4. if i3 < d then F i0 i1 i2 i3 i4 else G i0 i1 i2 (i3 - d) i4))"
proof -
  note * = cat2_mk[of "[a, b, c, d, e]" "[a, b, c, d', e]", simplified]
  show ?thesis
    unfolding mk5_def by (simp add: *; rule mk_cong; auto)
qed

lemma cumsum2_mk5:
  "cumsum2 (mk5 a b c d e F)
     = Inr (mk5 a b c d e (\<lambda>i0 i1 i2 i3 i4. \<Sum>j<Suc i3. F i0 i1 i2 j i4))"
  unfolding mk5_def by (simp add: cumsum2_mk; rule mk_cong; auto)

lemma sum2_keepdim_mk5:
  "sum2_keepdim (mk5 a b c d e F)
     = Inr (mk5 a b c 1 e (\<lambda>i0 i1 i2 i3 i4. \<Sum>j<d. F i0 i1 i2 j i4))"
  unfolding mk5_def by (simp add: sum2_keepdim_mk; rule mk_cong; auto)

lemma unbind3_mk5:
  "unbind3 (mk5 a b c d e F)
     = Inr (map (\<lambda>n. mk4 a b d e (\<lambda>i0 i1 i2 i3. F i0 i1 n i2 i3)) [0..<c])"
  unfolding mk5_def mk4_def by (simp add: unbind3_mk, intro ballI mk_cong, auto)

lemma stack2_mk4:
  assumes "0 < N"
  shows "stack2 (map (\<lambda>n. mk4 a b c d (F n)) [0..<N])
     = Inr (mk5 a b N c d (\<lambda>i0 i1 i2 i3 i4. F i2 i0 i1 i3 i4))"
proof -
  note * = stack2_mk[of "[a, b, c, d]" N "\<lambda>n idx. F n (idx ! 0) (idx ! 1) (idx ! 2) (idx ! 3)",
      simplified, OF assms]
  show ?thesis
    unfolding mk5_def mk4_def by (simp add: * del: map_upt_Suc upt_Suc; rule mk_cong; auto)
qed

lemma matmul_mk5:
  assumes "compat a a'" "compat b b'" "compat c c'"
  shows "matmul (mk5 a b c m n F) (mk5 a' b' c' n q G)
    = Inr (mk5 (bd a a') (bd b b') (bd c c') m q
        (\<lambda>i0 i1 i2 i3 i4. \<Sum>j<n. F (bc a i0) (bc b i1) (bc c i2) i3 j
                                  * G (bc a' i0) (bc b' i1) (bc c' i2) j i4))"
proof -
  have "bshape [a, b, c] [a', b', c'] = Inr [bd a a', bd b b', bd c c']"
    using assms by (simp add: bshape_same_length)
  note * = matmul_mk[OF this, of m n _ q, simplified]
  show ?thesis
    unfolding mk5_def by (simp add: *; rule mk_cong; clarsimp)
qed

lemma matmul_mk6:
  assumes "compat a a'" "compat b b'" "compat c c'" "compat d d'"
  shows "matmul (mk6 a b c d m n F) (mk6 a' b' c' d' n q G)
    = Inr (mk6 (bd a a') (bd b b') (bd c c') (bd d d') m q
        (\<lambda>i0 i1 i2 i3 i4 i5. \<Sum>j<n. F (bc a i0) (bc b i1) (bc c i2) (bc d i3) i4 j
                                  * G (bc a' i0) (bc b' i1) (bc c' i2) (bc d' i3) j i5))"
proof -
  have "bshape [a, b, c, d] [a', b', c', d'] = Inr [bd a a', bd b b', bd c c', bd d d']"
    using assms by (simp add: bshape_same_length)
  note * = matmul_mk[OF this, of m n _ q, simplified]
  show ?thesis
    unfolding mk6_def by (simp add: *; rule mk_cong; clarsimp)
qed

lemma tril_m1_mk6:
  "tril_m1 (mk6 a b c d e f F)
     = Inr (mk6 a b c d e f (\<lambda>i0 i1 i2 i3 i4 i5. if i5 < i4 then F i0 i1 i2 i3 i4 i5 else 0))"
  unfolding mk6_def by (simp add: tril_m1_mk; rule mk_cong; auto)

lemma diag_embed_mk5:
  "diag_embed (mk5 a b c d e F)
     = Inr (mk6 a b c d e e (\<lambda>i0 i1 i2 i3 i4 i5. if i4 = i5 then F i0 i1 i2 i3 i4 else 0))"
  unfolding mk5_def mk6_def by (simp add: diag_embed_mk; rule mk_cong; auto)

lemma einsum_bhnztk_mk6:
  assumes "compat a a'" "compat b b'" "compat c c'" "compat d d'" "compat e e'" "compat f f'"
  shows "einsum_bhnztk (mk6 a b c d e f F) (mk6 a' b' c' d' e' f' G)
    = Inr (mk5 (bd a a') (bd b b') (bd c c') (bd d d') (bd e e')
        (\<lambda>i0 i1 i2 i3 i4. \<Sum>j<bd f f'. F (bc a i0) (bc b i1) (bc c i2) (bc d i3) (bc e i4) (bc f j)
                             * G (bc a' i0) (bc b' i1) (bc c' i2) (bc d' i3) (bc e' i4) (bc f' j)))"
proof -
  have "bshape [a, b, c, d, e, f] [a', b', c', d', e', f']
      = Inr [bd a a', bd b b', bd c c', bd d d', bd e e', bd f f']"
    using assms by (simp add: bshape_same_length)
  note * = einsum_bhnztk_mk[OF _ _ this, simplified]
  show ?thesis
    unfolding mk6_def mk5_def by (simp add: *; rule mk_cong; clarsimp)
qed

subsection \<open>Views between the ranks\<close>

lemma view_mk:
  assumes "\<forall>s \<in> set sizes. 0 \<le> s" "prod_list (map nat sizes) = prod_list ds"
    and "\<And>idx. valid (map nat sizes) idx \<Longrightarrow> valid ds (g idx) \<and> ravel ds (g idx) = ravel (map nat sizes) idx"
  shows "view (mk ds F) sizes = Inr (mk (map nat sizes) (\<lambda>idx. F (g idx)))"
  using view_nonneg[of sizes "mk ds F"] assms(1,2) reshape_mk[OF assms(2,3), of F] by simp

lemma nat_int_mult [simp]: "nat (int n * int t) = n * t"
  by (simp flip: of_nat_mult)

lemma split_less: "i < n \<Longrightarrow> j < t \<Longrightarrow> i * t + j < n * (t::nat)"
proof -
  assume a: "i < n" "j < t"
  have "i * t + j < i * t + t" using a by simp
  also have "\<dots> = Suc i * t" by simp
  also have "\<dots> \<le> n * t" using a by (intro mult_le_mono1) simp
  finally show ?thesis .
qed

lemma view_4_5:
  "view (mk4 a b (n * t) d F) [int a, int b, int n, int t, int d]
     = Inr (mk5 a b n t d (\<lambda>i0 i1 i2 i3 i4. F i0 i1 (i2 * t + i3) i4))"
proof -
  have "view (mk [a, b, n * t, d] (\<lambda>idx. F (idx ! 0) (idx ! 1) (idx ! 2) (idx ! 3)))
          [int a, int b, int n, int t, int d]
      = Inr (mk (map nat [int a, int b, int n, int t, int d])
          (\<lambda>idx. (\<lambda>idx. F (idx ! 0) (idx ! 1) (idx ! 2) (idx ! 3))
             [idx ! 0, idx ! 1, idx ! 2 * t + idx ! 3, idx ! 4]))"
    by (rule view_mk) (auto simp: split_less add_mult_distrib mult.assoc)
  then show ?thesis
    unfolding mk4_def mk5_def by (simp; rule mk_cong; auto)
qed

lemma view_5_6:
  "view (mk5 a b c (n * t) e F) [int a, int b, int c, int n, int t, int e]
     = Inr (mk6 a b c n t e (\<lambda>i0 i1 i2 i3 i4 i5. F i0 i1 i2 (i3 * t + i4) i5))"
proof -
  have "view (mk [a, b, c, n * t, e] (\<lambda>idx. F (idx ! 0) (idx ! 1) (idx ! 2) (idx ! 3) (idx ! 4)))
          [int a, int b, int c, int n, int t, int e]
      = Inr (mk (map nat [int a, int b, int c, int n, int t, int e])
          (\<lambda>idx. (\<lambda>idx. F (idx ! 0) (idx ! 1) (idx ! 2) (idx ! 3) (idx ! 4))
             [idx ! 0, idx ! 1, idx ! 2, idx ! 3 * t + idx ! 4, idx ! 5]))"
    by (rule view_mk) (auto simp: split_less add_mult_distrib mult.assoc)
  then show ?thesis
    unfolding mk5_def mk6_def by (simp; rule mk_cong; auto)
qed

lemma merge_valid: "i < n * t \<Longrightarrow> i div t < n \<and> i mod t < (t::nat)"
  by (metis less_mult_imp_div_less mod_less_divisor mult_0_right nat_neq_iff not_less0 mult.commute neq0_conv)

lemma view_6_5:
  "view (mk6 a b c n t e F) [int a, int b, int c, int (n * t), int e]
     = Inr (mk5 a b c (n * t) e (\<lambda>i0 i1 i2 i3 i4. F i0 i1 i2 (i3 div t) (i3 mod t) i4))"
proof -
  have "view (mk [a, b, c, n, t, e] (\<lambda>idx. F (idx ! 0) (idx ! 1) (idx ! 2) (idx ! 3) (idx ! 4) (idx ! 5)))
          [int a, int b, int c, int (n * t), int e]
      = Inr (mk (map nat [int a, int b, int c, int (n * t), int e])
          (\<lambda>idx. (\<lambda>idx. F (idx ! 0) (idx ! 1) (idx ! 2) (idx ! 3) (idx ! 4) (idx ! 5))
             [idx ! 0, idx ! 1, idx ! 2, idx ! 3 div t, idx ! 3 mod t, idx ! 4]))"
  proof (rule view_mk)
    fix idx assume "valid (map nat [int a, int b, int c, int (n * t), int e]) idx"
    then obtain i0 i1 i2 i3 i4 where idx: "idx = [i0, i1, i2, i3, i4]"
      and b: "i0 < a" "i1 < b" "i2 < c" "i3 < n * t" "i4 < e"
      by (auto simp flip: of_nat_mult)
    have "(i3 div t) * (t * e) + (i3 mod t) * e = i3 * e"
      by (metis add_mult_distrib mult.assoc div_mult_mod_eq)
    then show "valid [a, b, c, n, t, e] [idx ! 0, idx ! 1, idx ! 2, idx ! 3 div t, idx ! 3 mod t, idx ! 4]
      \<and> ravel [a, b, c, n, t, e] [idx ! 0, idx ! 1, idx ! 2, idx ! 3 div t, idx ! 3 mod t, idx ! 4]
        = ravel (map nat [int a, int b, int c, int (n * t), int e]) idx"
      using b merge_valid[OF b(4)] unfolding idx by (simp add: algebra_simps flip: of_nat_mult)
  qed auto
  then show ?thesis
    unfolding mk5_def mk6_def by (simp; rule mk_cong; auto)
qed

lemma view_5_4:
  "view (mk5 a b n t e F) [int a, int b, int (n * t), int e]
     = Inr (mk4 a b (n * t) e (\<lambda>i0 i1 i2 i3. F i0 i1 (i2 div t) (i2 mod t) i3))"
proof -
  have "view (mk [a, b, n, t, e] (\<lambda>idx. F (idx ! 0) (idx ! 1) (idx ! 2) (idx ! 3) (idx ! 4)))
          [int a, int b, int (n * t), int e]
      = Inr (mk (map nat [int a, int b, int (n * t), int e])
          (\<lambda>idx. (\<lambda>idx. F (idx ! 0) (idx ! 1) (idx ! 2) (idx ! 3) (idx ! 4))
             [idx ! 0, idx ! 1, idx ! 2 div t, idx ! 2 mod t, idx ! 3]))"
  proof (rule view_mk)
    fix idx assume "valid (map nat [int a, int b, int (n * t), int e]) idx"
    then obtain i0 i1 i2 i3 where idx: "idx = [i0, i1, i2, i3]"
      and b: "i0 < a" "i1 < b" "i2 < n * t" "i3 < e"
      by (auto simp flip: of_nat_mult)
    have "(i2 div t) * (t * e) + (i2 mod t) * e = i2 * e"
      by (metis add_mult_distrib mult.assoc div_mult_mod_eq)
    then show "valid [a, b, n, t, e] [idx ! 0, idx ! 1, idx ! 2 div t, idx ! 2 mod t, idx ! 3]
      \<and> ravel [a, b, n, t, e] [idx ! 0, idx ! 1, idx ! 2 div t, idx ! 2 mod t, idx ! 3]
        = ravel (map nat [int a, int b, int (n * t), int e]) idx"
      using b merge_valid[OF b(3)] unfolding idx by (simp add: algebra_simps flip: of_nat_mult)
  qed auto
  then show ?thesis
    unfolding mk4_def mk5_def by (simp; rule mk_cong; auto)
qed

lemma unsqueeze2_mk4:
  "unsqueeze 2 (mk4 a b c d F) = Inr (mk5 a b 1 c d (\<lambda>i0 i1 i2 i3 i4. F i0 i1 i3 i4))"
proof -
  have "\<lparr>dims = [a, b, 1, c, d], elems = elems (mk [a, b, c, d] (\<lambda>idx. F (idx ! 0) (idx ! 1) (idx ! 2) (idx ! 3)))\<rparr>
      = mk [a, b, 1, c, d] (\<lambda>idx. (\<lambda>idx. F (idx ! 0) (idx ! 1) (idx ! 2) (idx ! 3))
           [idx ! 0, idx ! 1, idx ! 3, idx ! 4])"
    by (rule reshape_mk) auto
  then show ?thesis
    unfolding mk4_def mk5_def unsqueeze_def by (simp; rule mk_cong; auto)
qed

lemma view_u:
  "view (mk5 1 h 1 1 k F) [1, int h, 1, 1, 1, int k]
     = Inr (mk6 1 h 1 1 1 k (\<lambda>i0 i1 i2 i3 i4 i5. F 0 i1 0 0 i5))"
proof -
  have "view (mk [1, h, 1, 1, k] (\<lambda>idx. F (idx ! 0) (idx ! 1) (idx ! 2) (idx ! 3) (idx ! 4)))
          [1, int h, 1, 1, 1, int k]
      = Inr (mk (map nat [1, int h, 1, 1, 1, int k])
          (\<lambda>idx. (\<lambda>idx. F (idx ! 0) (idx ! 1) (idx ! 2) (idx ! 3) (idx ! 4))
             [0, idx ! 1, 0, 0, idx ! 5]))"
    by (rule view_mk) auto
  then show ?thesis
    unfolding mk5_def mk6_def by (simp; rule mk_cong; auto)
qed

lemma setitem_end3_mk6:
  assumes "py_slice d lo hi = (s, len)"
  shows "setitem_end 3 (mk6 a b c d e f F) lo hi (mk6 a b c len e f G)
    = Inr (mk6 a b c d e f (\<lambda>i0 i1 i2 i3 i4 i5.
         if s \<le> i3 \<and> i3 < s + len then G i0 i1 i2 (i3 - s) i4 i5 else F i0 i1 i2 i3 i4 i5))"
proof -
  have ex: "expandable [a, b, c, len, e, f] ([a, b, c, d, e, f][length [a, b, c, d, e, f] - 3 := len])"
    by (simp add: expandable_def)
  have le: "s + len \<le> d" using py_slice_le[OF assms] .
  note * = setitem_end_mk[of 3 "[a, b, c, d, e, f]" lo hi s len "[a, b, c, len, e, f]", simplified,
      OF assms ex[simplified]]
  show ?thesis
    unfolding mk6_def
    by (simp add: *; rule mk_cong; auto)
qed

lemma size_first_mk4 [simp]: "size_first (mk4 a b c d F) = Inr a"
  by (simp add: size_first_def)

lemma size_end1_mk4 [simp]: "size_end 1 (mk4 a b c d F) = Inr d"
  by (simp add: size_end_def)

lemma py_slice_simps:
  "0 < n \<Longrightarrow> py_slice n 0 1 = (0, 1)"
  "py_slice n 0 (- 1) = (0, n - 1)"
  "py_slice 2 1 2 = (1, 1)"
  "py_slice 2 0 1 = (0, 1)"
  "py_slice (Suc 0) 1 2 = (1, 0)"
  "m < n \<Longrightarrow> py_slice n (int m) (int m + 1) = (m, 1)"
  by (auto simp: py_slice_def Let_def)

subsection \<open>The loop over the chunks\<close>

lemma getitem_map_upt:
  "n < N \<Longrightarrow> getitem (map f [0..<N]) n = Inr (f n)"
  by (simp add: getitem_def)

lemma state_loop_mk4:
  assumes bw: "Bw = B \<or> Bw = 1" and m: "m \<le> N"
    and step: "\<And>n b h i j. n < N \<Longrightarrow> b < B \<Longrightarrow> h < H \<Longrightarrow> i < K \<Longrightarrow> j < V \<Longrightarrow>
       CS (Suc n) b h i j = CS n b h i j * E n (bc Bw b) h i 0 + Q n b h i j"
  shows "state_loop (map (\<lambda>n. mk4 Bw H K 1 (E n)) [0..<N]) (map (\<lambda>n. mk4 B H K V (Q n)) [0..<N])
           [m..<N] states (mk4 B H K V (CS m))
       = Inr (states @ map (\<lambda>n. mk4 B H K V (CS n)) [m..<N], mk4 B H K V (CS N))"
  using m
proof (induction "N - m" arbitrary: m states)
  case 0
  then have "m = N" by simp
  then show ?case by simp
next
  case (Suc d)
  then have mN: "m < N" by simp
  have upt: "[m..<N] = m # [Suc m..<N]" using mN by (simp add: upt_conv_Cons)
  have cB: "compat B Bw" "bd B Bw = B" using bw by (auto simp: compat_def bd_def)
  have m1: "mul (mk4 B H K V (CS m)) (mk4 Bw H K 1 (E m))
      = Inr (mk4 B H K V (\<lambda>b h i j. CS m b h i j * E m (bc Bw b) h i 0))"
    by (simp add: mul_mk4 cB)
  have a1: "add (mk4 B H K V (\<lambda>b h i j. CS m b h i j * E m (bc Bw b) h i 0)) (mk4 B H K V (Q m))
      = Inr (mk4 B H K V (CS (Suc m)))"
    by (simp add: add_mk4; rule mk4_eqI; simp add: step[OF mN])
  have IH: "state_loop (map (\<lambda>n. mk4 Bw H K 1 (E n)) [0..<N]) (map (\<lambda>n. mk4 B H K V (Q n)) [0..<N])
           [Suc m..<N] (states @ [mk4 B H K V (CS m)]) (mk4 B H K V (CS (Suc m)))
       = Inr ((states @ [mk4 B H K V (CS m)]) @ map (\<lambda>n. mk4 B H K V (CS n)) [Suc m..<N],
              mk4 B H K V (CS N))"
    using Suc(1)[of "Suc m"] Suc(2) mN by simp
  show ?case
    unfolding upt state_loop.simps getitem_map_upt[OF mN] bnd_Inr m1 a1 IH by simp
qed

subsection \<open>The recurrence in closed form\<close>

lemma spec_state_closed:
  assumes pos: "\<And>t. 0 < W b h t i"
  shows "spec_state Kf Vf W S (a + p) b h i j
     = exp (\<Sum>t<p. ln (W b h (a + t) i)) * spec_state Kf Vf W S a b h i j
       + (\<Sum>q<p. exp ((\<Sum>t<p. ln (W b h (a + t) i)) - (\<Sum>t<Suc q. ln (W b h (a + t) i)))
                 * (Kf b h (a + q) i * Vf b h (a + q) j))"
proof (induction p)
  case 0
  show ?case by simp
next
  case (Suc p)
  define D where "D = (\<lambda>m. \<Sum>t<m. ln (W b h (a + t) i))"
  define kv where "kv = (\<lambda>q. Kf b h (a + q) i * Vf b h (a + q) j)"
  define w where "w = W b h (a + p) i"
  have w: "0 < w" using pos by (simp add: w_def)
  have DS: "D (Suc p) = D p + ln w" by (simp add: D_def w_def)
  have e1: "exp (D (Suc p)) = w * exp (D p)" using w by (simp add: DS exp_add)
  have e2: "exp (D (Suc p) - D (Suc q)) = w * exp (D p - D (Suc q))" for q
    using w by (simp add: DS exp_add exp_diff)
  have IH: "spec_state Kf Vf W S (a + p) b h i j
      = exp (D p) * spec_state Kf Vf W S a b h i j + (\<Sum>q<p. exp (D p - D (Suc q)) * kv q)"
    using Suc by (simp add: D_def kv_def)
  have "spec_state Kf Vf W S (a + Suc p) b h i j
      = w * spec_state Kf Vf W S (a + p) b h i j + kv p"
    by (simp add: w_def kv_def)
  also have "\<dots> = w * exp (D p) * spec_state Kf Vf W S a b h i j
      + (\<Sum>q<p. w * exp (D p - D (Suc q)) * kv q) + kv p"
    unfolding IH by (simp add: distrib_left sum_distrib_left mult.assoc)
  also have "\<dots> = exp (D (Suc p)) * spec_state Kf Vf W S a b h i j
      + (\<Sum>q<p. exp (D (Suc p) - D (Suc q)) * kv q) + kv p"
    unfolding e1 e2 by simp
  also have "\<dots> = exp (D (Suc p)) * spec_state Kf Vf W S a b h i j
      + (\<Sum>q<Suc p. exp (D (Suc p) - D (Suc q)) * kv q)"
    by simp
  finally show ?case by (simp only: D_def kv_def)
qed

lemma sum_if_less: "t \<le> (m::nat) \<Longrightarrow> (\<Sum>t'<m. if t' < t then f t' else 0) = (\<Sum>t'<t. f t' :: real)"
proof -
  assume a: "t \<le> m"
  have "{..<m} \<inter> {x. x < t} = {..<t}" using a by auto
  then show ?thesis by (simp add: sum.If_cases)
qed

lemma sum_if_eq: "t < (m::nat) \<Longrightarrow> (\<Sum>t'<m. if t = t' then f t' else 0) = (f t :: real)"
  by (simp add: sum.delta')

lemma exp_cancel: "(r * exp (a - off)) * (k * exp (off - c)) = r * (exp (a - c) * k)" for r :: real
proof -
  have "exp (a - off) * exp (off - c) = exp (a - c)" by (simp add: exp_add[symmetric])
  then have "(r * k) * (exp (a - off) * exp (off - c)) = (r * k) * exp (a - c)" by simp
  then show ?thesis by (simp add: mult_ac)
qed

lemma intra_math:
  fixes r u dp off :: "nat \<Rightarrow> real" and k c :: "nat \<Rightarrow> nat \<Rightarrow> real" and v :: "nat \<Rightarrow> real"
  assumes t: "t < T2"
  shows "(\<Sum>t'<T2. ((if t' < t then \<Sum>i<K. (r i * exp (dp i - off i)) * (k t' i * exp (off i - c t' i)) else 0)
                   + (if t = t' then \<Sum>i<K. r i * (u i * k t i) else 0)) * v t')
   = (\<Sum>i<K. r i * ((\<Sum>t'<t. exp (dp i - c t' i) * (k t' i * v t')) + u i * (k t i * v t)))"
proof -
  have "(\<Sum>t'<T2. ((if t' < t then \<Sum>i<K. (r i * exp (dp i - off i)) * (k t' i * exp (off i - c t' i)) else 0)
                   + (if t = t' then \<Sum>i<K. r i * (u i * k t i) else 0)) * v t')
      = (\<Sum>t'<T2. (if t' < t then (\<Sum>i<K. r i * (exp (dp i - c t' i) * k t' i)) * v t' else 0))
        + (\<Sum>t'<T2. (if t = t' then (\<Sum>i<K. r i * (u i * k t i)) * v t' else 0))"
    unfolding sum.distrib[symmetric] exp_cancel
    by (rule sum.cong) (auto simp: distrib_right)
  also have "\<dots> = (\<Sum>t'<t. (\<Sum>i<K. r i * (exp (dp i - c t' i) * k t' i)) * v t')
        + (\<Sum>i<K. r i * (u i * k t i)) * v t"
    using t by (simp add: sum_if_less sum_if_eq)
  also have "(\<Sum>t'<t. (\<Sum>i<K. r i * (exp (dp i - c t' i) * k t' i)) * v t')
      = (\<Sum>i<K. r i * (\<Sum>t'<t. exp (dp i - c t' i) * (k t' i * v t')))"
    unfolding sum_distrib_right sum_distrib_left
    by (subst sum.swap) (simp add: mult.assoc)
  finally show ?thesis
    by (simp add: sum_distrib_right sum.distrib distrib_left mult.assoc)
qed

lemma cross_math:
  fixes r dp off :: "nat \<Rightarrow> real" and k c :: "nat \<Rightarrow> nat \<Rightarrow> real" and v :: "nat \<Rightarrow> real"
  shows "(\<Sum>t'<T2. (\<Sum>i<K. (r i * exp (dp i - off i)) * (k t' i * exp (off i - c t' i))) * v t')
   = (\<Sum>i<K. r i * (\<Sum>t'<T2. exp (dp i - c t' i) * (k t' i * v t')))"
  unfolding exp_cancel sum_distrib_right sum_distrib_left
  by (subst sum.swap) (simp add: mult.assoc)

lemma sum_split_add: "(\<Sum>q<m + (t::nat). f q) = (\<Sum>q<m. f q) + (\<Sum>q<t. f (m + q) :: real)"
  by (induction t) (simp_all add: add.assoc)

subsection \<open>The chunked path on tensors given by their components\<close>

lemma py_slice_quarter: "0 < T2 \<Longrightarrow> py_slice T2 (int (2 * T2) div 4) (int (2 * T2) div 4 + 1) = (T2 div 2, 1)"
proof -
  assume a: "0 < T2"
  have e: "int (2 * T2) div 4 = int (T2 div 2)" by (simp add: zdiv_int)
  have "T2 div 2 < T2" using a by simp
  then show ?thesis unfolding e by (rule py_slice_simps(6))
qed

lemma sum_pred: "(if t = 0 then 0 else (\<Sum>j<Suc (t - Suc 0). f j)) = (\<Sum>j<t. f j :: real)"
  by (cases t) auto

lemma rwkv_inner_chunked_mk4:
  fixes R Kf Vf Wf Uf S :: "nat \<Rightarrow> nat \<Rightarrow> nat \<Rightarrow> nat \<Rightarrow> real"
  assumes bw: "Bw = B \<or> Bw = 1" and T2: "0 < T2" and N: "0 < N"
    and pd: "p = Float32 \<or> p = Float64"
  defines "T \<equiv> 2 * T2"
  defines "L \<equiv> N * T"
  defines "W \<equiv> (\<lambda>b h t i. max (precision_min_val p) (Wf b h t i))"
  shows "rwkv_inner (mk4 B H L K R) (mk4 B H L K Kf) (mk4 B H L V Vf) (mk4 Bw H L K Wf)
           (mk4 1 H 1 K Uf) (mk4 B H K V S) (int T) p
       = Inr (mk4 B H L V (spec_out K R Kf Vf (\<lambda>b. W (bc Bw b)) (\<lambda>h. Uf 0 h 0) S),
              mk4 B H K V (spec_state Kf Vf (\<lambda>b. W (bc Bw b)) S L))"
proof -
  have Tpos: "0 < T" using T2 by (simp add: T_def)
  obtain N' T2' where "N = Suc N'" "T2 = Suc T2'" using T2 N by (metis Suc_pred)
  then have Lpos: "1 < L" by (simp add: T_def L_def)
  have cB: "compat B Bw" "bd B Bw = B" using bw by (auto simp: compat_def bd_def)
  define LW where "LW = (\<lambda>b h t i. ln (W b h t i))"
  have e_clamp: "clamp (precision_min_val p) (mk4 Bw H L K Wf) = mk4 Bw H L K W"
    by (simp add: clamp_def unop_mk4 W_def)
  have e_log: "log_t (mk4 Bw H L K W) = mk4 Bw H L K LW"
    by (simp add: log_t_def unop_mk4 LW_def)
  define WC where "WC = (\<lambda>b h n t i. LW b h (n * T + t) i)"
  have e_wc: "view (mk4 Bw H L K LW) [int Bw, int H, int N, int T, int K] = Inr (mk5 Bw H N T K WC)"
    unfolding L_def WC_def by (rule view_4_5)
  define CUM where "CUM = (\<lambda>b h n t i. \<Sum>j<Suc t. WC b h n j i)"
  have e_cum: "cumsum2 (mk5 Bw H N T K WC) = Inr (mk5 Bw H N T K CUM)"
    unfolding CUM_def by (rule cumsum2_mk5)
  define FIRST where "FIRST = (\<lambda>b h n t i. CUM b h n (t + 0) i)"
  have e_first: "slice_end 2 (mk5 Bw H N T K CUM) 0 1 = Inr (mk5 Bw H N 1 K FIRST)"
    unfolding FIRST_def by (rule slice_end2_mk5) (simp add: py_slice_simps Tpos)
  define FRONT where "FRONT = (\<lambda>b h n t i. CUM b h n (t + 0) i)"
  have e_front: "slice_end 2 (mk5 Bw H N T K CUM) 0 (- 1) = Inr (mk5 Bw H N (T - 1) K FRONT)"
    unfolding FRONT_def by (rule slice_end2_mk5) (simp add: py_slice_simps)
  have e_zeros: "zeros_like (mk5 Bw H N 1 K FIRST) = mk5 Bw H N 1 K (\<lambda>b h n t i. 0)"
    by (simp add: zeros_like_def unop_mk5)
  define SH where "SH = (\<lambda>b h n t i. \<Sum>j<t. WC b h n j i)"
  have e_shift: "cat2 (mk5 Bw H N 1 K (\<lambda>b h n t i. 0)) (mk5 Bw H N (T - 1) K FRONT)
      = Inr (mk5 Bw H N T K SH)"
    using Tpos by (simp add: cat2_mk5 SH_def FRONT_def CUM_def sum_pred del: sum.lessThan_Suc)
  define WS where "WS = (\<lambda>b h n (t::nat) i. \<Sum>j<T. WC b h n j i)"
  have e_ws: "sum2_keepdim (mk5 Bw H N T K WC) = Inr (mk5 Bw H N 1 K WS)"
    unfolding WS_def by (rule sum2_keepdim_mk5)
  define WINTER where "WINTER = (\<lambda>b h n t i. (\<Sum>j<T. WC b h n j i) - CUM b h n t i)"
  have e_winter: "sub (mk5 Bw H N 1 K WS) (mk5 Bw H N T K CUM) = Inr (mk5 Bw H N T K WINTER)"
    by (simp add: sub_mk5; intro mk5_eqI; simp add: WINTER_def WS_def)
  define WINTRA where "WINTRA = (\<lambda>b h n t i. CUM b h n t i - WC b h n t i)"
  have e_wintra: "sub (mk5 Bw H N T K CUM) (mk5 Bw H N T K WC) = Inr (mk5 Bw H N T K WINTRA)"
    by (simp add: sub_mk5; intro mk5_eqI; simp add: WINTRA_def)
  define WST where "WST = (\<lambda>b h n i (t::nat). \<Sum>j<T. WC b h n j i)"
  have e_wsmT: "mT (mk5 Bw H N 1 K WS) = Inr (mk5 Bw H N K 1 WST)"
    by (simp add: mT_mk5; intro mk5_eqI; simp add: WST_def WS_def)
  define EWS where "EWS = (\<lambda>n b h i (t::nat). exp (\<Sum>j<T. WC b h n j i))"
  have e_ews: "exp_t (mk5 Bw H N K 1 WST) = mk5 Bw H N K 1 (\<lambda>b h n. EWS n b h)"
    by (simp add: exp_t_def unop_mk5; intro mk5_eqI; simp add: WST_def EWS_def)
  have e_unbind: "unbind3 (mk5 Bw H N K 1 (\<lambda>b h n. EWS n b h))
      = Inr (map (\<lambda>n. mk4 Bw H K 1 (EWS n)) [0..<N])"
    by (simp add: unbind3_mk5)
  define EINTER where "EINTER = (\<lambda>b h n t i. exp (WINTER b h n t i))"
  have e_einter: "exp_t (mk5 Bw H N T K WINTER) = mk5 Bw H N T K EINTER"
    by (simp add: exp_t_def unop_mk5 EINTER_def)
  define EINTRA where "EINTRA = (\<lambda>b h n t i. exp (WINTRA b h n t i))"
  have e_eintra: "exp_t (mk5 Bw H N T K WINTRA) = mk5 Bw H N T K EINTRA"
    by (simp add: exp_t_def unop_mk5 EINTRA_def)
  define R5 where "R5 = (\<lambda>b h n t i. R b h (n * T + t) i)"
  have e_r5: "view (mk4 B H L K R) [int B, int H, int N, int T, int K] = Inr (mk5 B H N T K R5)"
    unfolding L_def R5_def by (rule view_4_5)
  define K5 where "K5 = (\<lambda>b h n t i. Kf b h (n * T + t) i)"
  have e_k5: "view (mk4 B H L K Kf) [int B, int H, int N, int T, int K] = Inr (mk5 B H N T K K5)"
    unfolding L_def K5_def by (rule view_4_5)
  define V5 where "V5 = (\<lambda>b h n t i. Vf b h (n * T + t) i)"
  have e_v5: "view (mk4 B H L V Vf) [int B, int H, int N, int T, int V] = Inr (mk5 B H N T V V5)"
    unfolding L_def V5_def by (rule view_4_5)
  define U5 where "U5 = (\<lambda>i0 i1 (i2::nat) i3 i4. Uf i0 i1 i3 i4)"
  have e_u5: "unsqueeze 2 (mk4 1 H 1 K Uf) = Inr (mk5 1 H 1 1 K U5)"
    unfolding U5_def by (rule unsqueeze2_mk4)
  define CUM6 where "CUM6 = (\<lambda>b h n z t i. CUM b h n (z * T2 + t) i)"
  have e_cum6: "view (mk5 Bw H N T K CUM) [int Bw, int H, int N, 2, int T div 2, int K]
      = Inr (mk6 Bw H N 2 T2 K CUM6)"
    using view_5_6[of Bw H N 2 T2 K CUM] by (simp add: T_def CUM6_def)
  define SH6 where "SH6 = (\<lambda>b h n z t i. SH b h n (z * T2 + t) i)"
  have e_sh6: "view (mk5 Bw H N T K SH) [int Bw, int H, int N, 2, int T div 2, int K]
      = Inr (mk6 Bw H N 2 T2 K SH6)"
    using view_5_6[of Bw H N 2 T2 K SH] by (simp add: T_def SH6_def)
  define OFF where "OFF = (\<lambda>b h n z t i. SH6 b h n z (t + T2 div 2) i)"
  have e_off: "slice_end 2 (mk6 Bw H N 2 T2 K SH6) (int T div 4) (int T div 4 + 1)
      = Inr (mk6 Bw H N 2 1 K OFF)"
    unfolding OFF_def T_def by (rule slice_end2_mk6) (rule py_slice_quarter[OF T2])
  define UU where "UU = (\<lambda>(i0::nat) i1 (i2::nat) (i3::nat) (i4::nat) i5. U5 0 i1 0 0 i5)"
  have e_uu: "view (mk5 1 H 1 1 K U5) [1, int H, 1, 1, 1, int K] = Inr (mk6 1 H 1 1 1 K UU)"
    unfolding UU_def by (rule view_u)
  define RRD where "RRD = (\<lambda>b h n z t i. exp (SH6 b h n z t i - OFF b h n z 0 i))"
  define D1 where "D1 = (\<lambda>b h n z t i. SH6 b h n z t i - OFF b h n z 0 i)"
  have e_d1: "sub (mk6 Bw H N 2 T2 K SH6) (mk6 Bw H N 2 1 K OFF) = Inr (mk6 Bw H N 2 T2 K D1)"
    by (simp add: sub_mk6; intro mk6_eqI; simp add: D1_def)
  have e_rrd: "exp_t (mk6 Bw H N 2 T2 K D1) = mk6 Bw H N 2 T2 K RRD"
    by (simp add: exp_t_def unop_mk6 RRD_def D1_def)
  define D2 where "D2 = (\<lambda>b h n z t i. OFF b h n z 0 i - CUM6 b h n z t i)"
  have e_d2: "sub (mk6 Bw H N 2 1 K OFF) (mk6 Bw H N 2 T2 K CUM6) = Inr (mk6 Bw H N 2 T2 K D2)"
    by (simp add: sub_mk6; intro mk6_eqI; simp add: D2_def)
  define KKI where "KKI = (\<lambda>b h n z t i. exp (OFF b h n z 0 i - CUM6 b h n z t i))"
  have e_kki: "exp_t (mk6 Bw H N 2 T2 K D2) = mk6 Bw H N 2 T2 K KKI"
    by (simp add: exp_t_def unop_mk6 KKI_def D2_def)
  define R6 where "R6 = (\<lambda>b h n z t i. R5 b h n (z * T2 + t) i)"
  have e_r6: "view (mk5 B H N T K R5) [int B, int H, int N, 2, int T div 2, int K]
      = Inr (mk6 B H N 2 T2 K R6)"
    using view_5_6[of B H N 2 T2 K R5] by (simp add: T_def R6_def)
  define K6 where "K6 = (\<lambda>b h n z t i. K5 b h n (z * T2 + t) i)"
  have e_k6: "view (mk5 B H N T K K5) [int B, int H, int N, 2, int T div 2, int K]
      = Inr (mk6 B H N 2 T2 K K6)"
    using view_5_6[of B H N 2 T2 K K5] by (simp add: T_def K6_def)
  define V6 where "V6 = (\<lambda>b h n z t i. V5 b h n (z * T2 + t) i)"
  have e_v6: "view (mk5 B H N T V V5) [int B, int H, int N, 2, int T div 2, int V]
      = Inr (mk6 B H N 2 T2 V V6)"
    using view_5_6[of B H N 2 T2 V V5] by (simp add: T_def V6_def)
  define RD where "RD = (\<lambda>b h n z t i. R6 b h n z t i * RRD (bc Bw b) h n z t i)"
  have e_rd: "mul (mk6 B H N 2 T2 K R6) (mk6 Bw H N 2 T2 K RRD) = Inr (mk6 B H N 2 T2 K RD)"
    by (simp add: mul_mk6 cB; intro mk6_eqI; simp add: RD_def)
  define KD where "KD = (\<lambda>b h n z t i. K6 b h n z t i * KKI (bc Bw b) h n z t i)"
  have e_kd: "mul (mk6 B H N 2 T2 K K6) (mk6 Bw H N 2 T2 K KKI) = Inr (mk6 B H N 2 T2 K KD)"
    by (simp add: mul_mk6 cB; intro mk6_eqI; simp add: KD_def)
  define KDT where "KDT = (\<lambda>b h n z i t. KD b h n z t i)"
  have e_kdt: "mT (mk6 B H N 2 T2 K KD) = Inr (mk6 B H N 2 K T2 KDT)"
    by (simp add: mT_mk6 KDT_def)
  define SC where "SC = (\<lambda>b h n z t t'. \<Sum>i<K. RD b h n z t i * KD b h n z t' i)"
  have e_sc: "matmul (mk6 B H N 2 T2 K RD) (mk6 B H N 2 K T2 KDT) = Inr (mk6 B H N 2 T2 T2 SC)"
    by (simp add: matmul_mk6; intro mk6_eqI; simp add: SC_def KDT_def)
  define A1 where "A1 = (\<lambda>b h n z t t'. if t' < t then SC b h n z t t' else 0)"
  have e_a1: "tril_m1 (mk6 B H N 2 T2 T2 SC) = Inr (mk6 B H N 2 T2 T2 A1)"
    by (simp add: tril_m1_mk6 A1_def)
  define UK where "UK = (\<lambda>b h n z t i. Uf 0 h 0 i * K6 b h n z t i)"
  have e_uk: "mul (mk6 1 H 1 1 1 K UU) (mk6 B H N 2 T2 K K6) = Inr (mk6 B H N 2 T2 K UK)"
    by (simp add: mul_mk6; intro mk6_eqI; simp add: UK_def UU_def U5_def)
  define BON where "BON = (\<lambda>b h n z t. \<Sum>i<K. R6 b h n z t i * UK b h n z t i)"
  have e_bon: "einsum_bhnztk (mk6 B H N 2 T2 K R6) (mk6 B H N 2 T2 K UK) = Inr (mk5 B H N 2 T2 BON)"
    by (simp add: einsum_bhnztk_mk6; intro mk5_eqI; simp add: BON_def)
  define BOND where "BOND = (\<lambda>b h n z t t'. if t = t' then BON b h n z t else 0)"
  have e_bond: "diag_embed (mk5 B H N 2 T2 BON) = Inr (mk6 B H N 2 T2 T2 BOND)"
    by (simp add: diag_embed_mk5 BOND_def)
  define A2 where "A2 = (\<lambda>b h n z t t'. A1 b h n z t t' + BOND b h n z t t')"
  have e_a2: "add (mk6 B H N 2 T2 T2 A1) (mk6 B H N 2 T2 T2 BOND) = Inr (mk6 B H N 2 T2 T2 A2)"
    by (simp add: add_mk6; intro mk6_eqI; simp add: A2_def)
  define OUT6 where "OUT6 = (\<lambda>b h n z t j. \<Sum>t'<T2. A2 b h n z t t' * V6 b h n z t' j)"
  have e_out6: "matmul (mk6 B H N 2 T2 T2 A2) (mk6 B H N 2 T2 V V6) = Inr (mk6 B H N 2 T2 V OUT6)"
    by (simp add: matmul_mk6; intro mk6_eqI; simp add: OUT6_def)
  define RR1 where "RR1 = (\<lambda>b h n z t i. R6 b h n (z + 1) t i)"
  have e_rr1: "slice_end 3 (mk6 B H N 2 T2 K R6) 1 2 = Inr (mk6 B H N 1 T2 K RR1)"
    unfolding RR1_def by (rule slice_end3_mk6) (simp add: py_slice_simps)
  define RRD1 where "RRD1 = (\<lambda>b h n z t i. RRD b h n (z + 1) t i)"
  have e_rrd1: "slice_end 3 (mk6 Bw H N 2 T2 K RRD) 1 2 = Inr (mk6 Bw H N 1 T2 K RRD1)"
    unfolding RRD1_def by (rule slice_end3_mk6) (simp add: py_slice_simps)
  define KK0 where "KK0 = (\<lambda>b h n z t i. K6 b h n (z + 0) t i)"
  have e_kk0: "slice_end 3 (mk6 B H N 2 T2 K K6) 0 1 = Inr (mk6 B H N 1 T2 K KK0)"
    unfolding KK0_def by (rule slice_end3_mk6) (simp add: py_slice_simps)
  define OFF1 where "OFF1 = (\<lambda>b h n z t i. OFF b h n (z + 1) t i)"
  have e_off1: "slice_end 3 (mk6 Bw H N 2 1 K OFF) 1 2 = Inr (mk6 Bw H N 1 1 K OFF1)"
    unfolding OFF1_def by (rule slice_end3_mk6) (simp add: py_slice_simps)
  define CUM0 where "CUM0 = (\<lambda>b h n z t i. CUM6 b h n (z + 0) t i)"
  have e_cum0: "slice_end 3 (mk6 Bw H N 2 T2 K CUM6) 0 1 = Inr (mk6 Bw H N 1 T2 K CUM0)"
    unfolding CUM0_def by (rule slice_end3_mk6) (simp add: py_slice_simps)
  define D3 where "D3 = (\<lambda>b h n (z::nat) t i. OFF b h n 1 0 i - CUM6 b h n 0 t i)"
  have e_d3: "sub (mk6 Bw H N 1 1 K OFF1) (mk6 Bw H N 1 T2 K CUM0) = Inr (mk6 Bw H N 1 T2 K D3)"
    by (simp add: sub_mk6; intro mk6_eqI; simp add: D3_def OFF1_def CUM0_def)
  define KKI3 where "KKI3 = (\<lambda>b h n (z::nat) t i. exp (OFF b h n 1 0 i - CUM6 b h n 0 t i))"
  have e_kki3: "exp_t (mk6 Bw H N 1 T2 K D3) = mk6 Bw H N 1 T2 K KKI3"
    by (simp add: exp_t_def unop_mk6 KKI3_def D3_def)
  define VV0 where "VV0 = (\<lambda>b h n z t i. V6 b h n (z + 0) t i)"
  have e_vv0: "slice_end 3 (mk6 B H N 2 T2 V V6) 0 1 = Inr (mk6 B H N 1 T2 V VV0)"
    unfolding VV0_def by (rule slice_end3_mk6) (simp add: py_slice_simps)
  define OUT1 where "OUT1 = (\<lambda>b h n z t i. OUT6 b h n (z + 1) t i)"
  have e_out1: "slice_end 3 (mk6 B H N 2 T2 V OUT6) 1 2 = Inr (mk6 B H N 1 T2 V OUT1)"
    unfolding OUT1_def by (rule slice_end3_mk6) (simp add: py_slice_simps)
  define RD2 where "RD2 = (\<lambda>b h n (z::nat) t i. R6 b h n 1 t i * RRD (bc Bw b) h n 1 t i)"
  have e_rd2: "mul (mk6 B H N 1 T2 K RR1) (mk6 Bw H N 1 T2 K RRD1) = Inr (mk6 B H N 1 T2 K RD2)"
    by (simp add: mul_mk6 cB; intro mk6_eqI; simp add: RD2_def RR1_def RRD1_def)
  define KD2 where "KD2 = (\<lambda>b h n (z::nat) t i. K6 b h n 0 t i * KKI3 (bc Bw b) h n 0 t i)"
  have e_kd2: "mul (mk6 B H N 1 T2 K KK0) (mk6 Bw H N 1 T2 K KKI3) = Inr (mk6 B H N 1 T2 K KD2)"
    by (simp add: mul_mk6 cB; intro mk6_eqI; simp add: KD2_def KK0_def)
  define KD2T where "KD2T = (\<lambda>b h n z i t. KD2 b h n z t i)"
  have e_kd2t: "mT (mk6 B H N 1 T2 K KD2) = Inr (mk6 B H N 1 K T2 KD2T)"
    by (simp add: mT_mk6 KD2T_def)
  define SC2 where "SC2 = (\<lambda>b h n (z::nat) t t'. \<Sum>i<K. RD2 b h n 0 t i * KD2 b h n 0 t' i)"
  have e_sc2: "matmul (mk6 B H N 1 T2 K RD2) (mk6 B H N 1 K T2 KD2T) = Inr (mk6 B H N 1 T2 T2 SC2)"
    by (simp add: matmul_mk6; intro mk6_eqI; simp add: SC2_def KD2T_def)
  define CROSS where "CROSS = (\<lambda>b h n (z::nat) t j. \<Sum>t'<T2. SC2 b h n 0 t t' * V6 b h n 0 t' j)"
  have e_cross: "matmul (mk6 B H N 1 T2 T2 SC2) (mk6 B H N 1 T2 V VV0) = Inr (mk6 B H N 1 T2 V CROSS)"
    by (simp add: matmul_mk6; intro mk6_eqI; simp add: CROSS_def VV0_def)
  define OUT1N where "OUT1N = (\<lambda>b h n (z::nat) t j. OUT6 b h n 1 t j + CROSS b h n 0 t j)"
  have e_out1n: "add (mk6 B H N 1 T2 V OUT1) (mk6 B H N 1 T2 V CROSS) = Inr (mk6 B H N 1 T2 V OUT1N)"
    by (simp add: add_mk6; intro mk6_eqI; simp add: OUT1N_def OUT1_def CROSS_def)
  define OUTS where "OUTS = (\<lambda>b h n z t j. if z = 1 then OUT1N b h n 0 t j else OUT6 b h n z t j)"
  have e_outs: "setitem_end 3 (mk6 B H N 2 T2 V OUT6) 1 2 (mk6 B H N 1 T2 V OUT1N)
      = Inr (mk6 B H N 2 T2 V OUTS)"
    unfolding setitem_end3_mk6[OF py_slice_simps(3)]
    by (simp; intro mk6_eqI; auto simp add: OUTS_def OUT1N_def)
  define OUT5 where "OUT5 = (\<lambda>b h n t j. OUTS b h n (t div T2) (t mod T2) j)"
  have e_out5: "view (mk6 B H N 2 T2 V OUTS) [int B, int H, int N, int T, int V]
      = Inr (mk5 B H N T V OUT5)"
    using view_6_5[of B H N 2 T2 V OUTS] by (simp add: T_def OUT5_def)
  define KW where "KW = (\<lambda>b h n t i. K5 b h n t i * EINTER (bc Bw b) h n t i)"
  have e_kw: "mul (mk5 B H N T K K5) (mk5 Bw H N T K EINTER) = Inr (mk5 B H N T K KW)"
    by (simp add: mul_mk5 cB; intro mk5_eqI; simp add: KW_def)
  define KWT where "KWT = (\<lambda>b h n i t. KW b h n t i)"
  have e_kwt: "mT (mk5 B H N T K KW) = Inr (mk5 B H N K T KWT)"
    by (simp add: mT_mk5 KWT_def)
  define WKV where "WKV = (\<lambda>n b h i j. \<Sum>t<T. KW b h n t i * V5 b h n t j)"
  have e_wkv: "matmul (mk5 B H N K T KWT) (mk5 B H N T V V5) = Inr (mk5 B H N K V (\<lambda>b h n. WKV n b h))"
    by (simp add: matmul_mk5; intro mk5_eqI; simp add: WKV_def KWT_def)
  have e_wkvl: "unbind3 (mk5 B H N K V (\<lambda>b h n. WKV n b h))
      = Inr (map (\<lambda>n. mk4 B H K V (WKV n)) [0..<N])"
    by (simp add: unbind3_mk5)
  define CS where "CS = (\<lambda>n. spec_state Kf Vf (\<lambda>b. W (bc Bw b)) S (n * T))"
  have Wpos: "0 < W b h t i" for b h t i
  proof -
    have "0 < precision_min_val p" by (simp add: precision_min_val_def)
    then show ?thesis unfolding W_def by (simp add: less_max_iff_disj)
  qed
  have closed: "spec_state Kf Vf (\<lambda>b. W (bc Bw b)) S (n * T + m) b h i j
      = exp (SH (bc Bw b) h n m i) * CS n b h i j
        + (\<Sum>q<m. exp (SH (bc Bw b) h n m i - SH (bc Bw b) h n (Suc q) i)
                     * (K5 b h n q i * V5 b h n q j))" for n m b h i j
    using spec_state_closed[of "\<lambda>b. W (bc Bw b)" b h i Kf Vf S "n * T" m j] Wpos
    by (simp add: SH_def WC_def LW_def K5_def V5_def CS_def)
  have cs_step: "CS (Suc n) b h i j = CS n b h i j * EWS n (bc Bw b) h i 0 + WKV n b h i j"
    for n b h i j
  proof -
    have "CS (Suc n) b h i j = spec_state Kf Vf (\<lambda>b. W (bc Bw b)) S (n * T + T) b h i j"
      by (simp add: CS_def add.commute)
    also have "\<dots> = exp (SH (bc Bw b) h n T i) * CS n b h i j
        + (\<Sum>q<T. exp (SH (bc Bw b) h n T i - SH (bc Bw b) h n (Suc q) i)
                     * (K5 b h n q i * V5 b h n q j))"
      by (rule closed)
    also have "\<dots> = CS n b h i j * EWS n (bc Bw b) h i 0 + WKV n b h i j"
      unfolding EWS_def WKV_def KW_def EINTER_def WINTER_def CUM_def SH_def
      by (simp add: mult_ac)
    finally show ?thesis .
  qed
  have e_s0: "mk4 B H K V S = mk4 B H K V (CS 0)"
    by (rule mk4_eqI) (simp add: CS_def)
  have e_loop: "state_loop (map (\<lambda>n. mk4 Bw H K 1 (EWS n)) [0..<N])
        (map (\<lambda>n. mk4 B H K V (WKV n)) [0..<N]) [0..<N] [] (mk4 B H K V S)
      = Inr (map (\<lambda>n. mk4 B H K V (CS n)) [0..<N], mk4 B H K V (CS N))"
    unfolding e_s0
    using state_loop_mk4[OF bw, of 0 N H K V CS EWS WKV "[]"] cs_step by simp
  define ST5 where "ST5 = (\<lambda>b h n i j. CS n b h i j)"
  have e_stack: "stack2 (map (\<lambda>n. mk4 B H K V (CS n)) [0..<N]) = Inr (mk5 B H N K V ST5)"
    unfolding ST5_def by (rule stack2_mk4[OF N])
  define RW where "RW = (\<lambda>b h n t i. R5 b h n t i * EINTRA (bc Bw b) h n t i)"
  have e_rw: "mul (mk5 B H N T K R5) (mk5 Bw H N T K EINTRA) = Inr (mk5 B H N T K RW)"
    by (simp add: mul_mk5 cB; intro mk5_eqI; simp add: RW_def)
  define CAR where "CAR = (\<lambda>b h n t j. \<Sum>i<K. RW b h n t i * ST5 b h n i j)"
  have e_car: "matmul (mk5 B H N T K RW) (mk5 B H N K V ST5) = Inr (mk5 B H N T V CAR)"
    by (simp add: matmul_mk5; intro mk5_eqI; simp add: CAR_def)
  define FIN where "FIN = (\<lambda>b h n t j. OUT5 b h n t j + CAR b h n t j)"
  have e_fin: "add (mk5 B H N T V OUT5) (mk5 B H N T V CAR) = Inr (mk5 B H N T V FIN)"
    by (simp add: add_mk5; intro mk5_eqI; simp add: FIN_def)
  define RES where "RES = (\<lambda>b h t j. FIN b h (t div T) (t mod T) j)"
  have e_res: "view (mk5 B H N T V FIN) [int B, int H, int L, int V] = Inr (mk4 B H L V RES)"
    using view_5_4[of B H N T V FIN] by (simp add: L_def RES_def)
  have e_dk: "dims (mk4 B H L K Kf) = [B, H, L, K]" by simp
  have e_sv: "size_end 1 (mk4 B H L V Vf) = Inr V" by (simp add: size_end_def)
  have e_L: "(L = 1) = False" using Lpos by simp
  have e_mod: "py_mod (int L) (int T) = Inr 0" using Tpos by (simp add: py_mod_def L_def)
  have e_T: "(if (0::int) \<noteq> 0 then 1 else int T) = int T" by simp
  have e_div: "py_floordiv (int L) (int T) = Inr (int N)"
    using Tpos by (simp add: py_floordiv_def L_def)
  have e_pd: "(\<not> (p = Float32 \<or> p = Float64)) = False" using pd by simp
  have e_bw: "size_first (mk4 Bw H L K W) = Inr Bw" by simp
  have e_nat: "nat (int N) = N" by simp
  have run: "rwkv_inner (mk4 B H L K R) (mk4 B H L K Kf) (mk4 B H L V Vf) (mk4 Bw H L K Wf)
           (mk4 1 H 1 K Uf) (mk4 B H K V S) (int T) p
       = Inr (mk4 B H L V RES, mk4 B H K V (CS N))"
    unfolding rwkv_inner_def
    by (simp only: e_dk list.case e_sv bnd_Inr e_L if_False e_mod Let_def e_T e_div e_pd
        e_clamp e_log e_bw e_wc e_cum e_first e_front e_zeros e_shift e_ws e_winter e_wintra
        e_wsmT e_ews e_unbind e_einter e_eintra e_r5 e_k5 e_v5 e_u5 e_cum6 e_sh6 e_off e_uu
        e_d1 e_rrd e_d2 e_kki e_r6 e_k6 e_v6 e_rd e_kd e_kdt e_sc e_a1 e_uk e_bon e_bond e_a2
        e_out6 e_rr1 e_rrd1 e_kk0 e_off1 e_cum0 e_d3 e_kki3 e_vv0 e_out1 e_rd2 e_kd2 e_kd2t
        e_sc2 e_cross e_out1n e_outs e_out5 e_kw e_kwt e_wkv e_wkvl e_nat e_loop prod.case
        e_stack e_rw e_car e_fin e_res)
  have fin: "FIN b h n (z * T2 + t) j
      = spec_out K R Kf Vf (\<lambda>b. W (bc Bw b)) (\<lambda>h. Uf 0 h 0) S b h (n * T + (z * T2 + t)) j"
    if zt: "z < 2" "t < T2" for b h n z t j
  proof -
    define b' where "b' = bc Bw b"
    define pp where "pp = z * T2 + t"
    define E where "E = (\<lambda>i. exp (SH b' h n pp i) * CS n b h i j)"
    define A where "A = (\<lambda>i. \<Sum>q<pp. exp (SH b' h n pp i - SH b' h n (Suc q) i)
                                  * (K5 b h n q i * V5 b h n q j))"
    define U where "U = (\<lambda>i. Uf 0 h 0 i * (K5 b h n pp i * V5 b h n pp j))"
    define r where "r = (\<lambda>i. R5 b h n pp i)"
    have dm: "pp div T2 = z" "pp mod T2 = t" using zt by (simp_all add: pp_def)
    have tgt: "spec_out K R Kf Vf (\<lambda>b. W (bc Bw b)) (\<lambda>h. Uf 0 h 0) S b h (n * T + pp) j
        = (\<Sum>i<K. r i * (E i + A i + U i))"
      unfolding spec_out_def closed
      by (simp add: r_def E_def A_def U_def R5_def K5_def V5_def b'_def)
    have car: "CAR b h n pp j = (\<Sum>i<K. r i * E i)"
      unfolding CAR_def RW_def ST5_def EINTRA_def WINTRA_def CUM_def SH_def b'_def r_def E_def
      by (simp add: mult.assoc)
    have out6: "OUT6 b h n z' t j
        = (\<Sum>i<K. R6 b h n z' t i *
             ((\<Sum>t'<t. exp (SH6 b' h n z' t i - CUM6 b' h n z' t' i)
                          * (K6 b h n z' t' i * V6 b h n z' t' j))
              + Uf 0 h 0 i * (K6 b h n z' t i * V6 b h n z' t j)))" for z'
      unfolding OUT6_def A2_def A1_def SC_def BOND_def BON_def RD_def KD_def UK_def RRD_def
        KKI_def b'_def[symmetric]
      by (rule intra_math[OF zt(2), where r = "\<lambda>i. R6 b h n z' t i"
            and dp = "\<lambda>i. SH6 b' h n z' t i" and off = "\<lambda>i. OFF b' h n z' 0 i"
            and k = "\<lambda>t' i. K6 b h n z' t' i" and c = "\<lambda>t' i. CUM6 b' h n z' t' i"
            and u = "\<lambda>i. Uf 0 h 0 i" and v = "\<lambda>t'. V6 b h n z' t' j"])
    have cross: "CROSS b h n 0 t j
        = (\<Sum>i<K. R6 b h n 1 t i *
             (\<Sum>t'<T2. exp (SH6 b' h n 1 t i - CUM6 b' h n 0 t' i)
                          * (K6 b h n 0 t' i * V6 b h n 0 t' j)))"
      unfolding CROSS_def SC2_def RD2_def KD2_def RRD_def KKI3_def b'_def[symmetric]
      by (rule cross_math[where r = "\<lambda>i. R6 b h n 1 t i"
            and dp = "\<lambda>i. SH6 b' h n 1 t i" and off = "\<lambda>i. OFF b' h n 1 0 i"
            and k = "\<lambda>t' i. K6 b h n 0 t' i" and c = "\<lambda>t' i. CUM6 b' h n 0 t' i"
            and v = "\<lambda>t'. V6 b h n 0 t' j"])
    have outs: "OUTS b h n z t j = (\<Sum>i<K. r i * (A i + U i))"
    proof (cases "z = 0")
      case True
      then have pp: "pp = t" by (simp add: pp_def)
      have "OUTS b h n z t j = OUT6 b h n 0 t j" using True by (simp add: OUTS_def)
      also have "\<dots> = (\<Sum>i<K. r i * (A i + U i))"
        unfolding out6 r_def A_def U_def pp
        by (simp add: R6_def SH6_def CUM6_def K6_def V6_def CUM_def SH_def)
      finally show ?thesis .
    next
      case False
      then have z1: "z = 1" using zt(1) by simp
      then have pp: "pp = T2 + t" by (simp add: pp_def)
      have split: "A i = (\<Sum>q<T2. exp (SH b' h n pp i - SH b' h n (Suc q) i)
                                  * (K5 b h n q i * V5 b h n q j))
          + (\<Sum>q<t. exp (SH b' h n pp i - SH b' h n (Suc (T2 + q)) i)
                                  * (K5 b h n (T2 + q) i * V5 b h n (T2 + q) j))" for i
        unfolding A_def unfolding pp sum_split_add by simp
      have "OUTS b h n z t j = OUT6 b h n 1 t j + CROSS b h n 0 t j"
        using z1 by (simp add: OUTS_def OUT1N_def)
      also have "\<dots> = (\<Sum>i<K. r i * (A i + U i))"
        unfolding out6 cross split r_def U_def pp
        by (simp add: R6_def SH6_def CUM6_def K6_def V6_def CUM_def SH_def sum.distrib
            algebra_simps)
      finally show ?thesis .
    qed
    have "FIN b h n pp j = OUTS b h n z t j + CAR b h n pp j"
      by (simp add: FIN_def OUT5_def dm)
    also have "\<dots> = (\<Sum>i<K. r i * (E i + A i + U i))"
      unfolding outs car by (simp add: sum.distrib algebra_simps)
    finally have "FIN b h n pp j
        = spec_out K R Kf Vf (\<lambda>b. W (bc Bw b)) (\<lambda>h. Uf 0 h 0) S b h (n * T + pp) j"
      unfolding tgt .
    then show ?thesis unfolding pp_def .
  qed
  have res: "RES b h l j = spec_out K R Kf Vf (\<lambda>b. W (bc Bw b)) (\<lambda>h. Uf 0 h 0) S b h l j"
    for b h l j
  proof -
    define pp where "pp = l mod T"
    have "pp < 2 * T2" using T2 by (simp add: pp_def T_def)
    then have z: "pp div T2 < 2" by (simp add: less_mult_imp_div_less)
    have t: "pp mod T2 < T2" using T2 by simp
    have pp: "pp div T2 * T2 + pp mod T2 = pp" by simp
    have l: "l div T * T + pp = l" by (simp add: pp_def)
    show ?thesis
      using fin[OF z t, of b h "l div T" j] unfolding pp l by (simp add: RES_def pp_def)
  qed
  have e_out: "mk4 B H L V RES
      = mk4 B H L V (spec_out K R Kf Vf (\<lambda>b. W (bc Bw b)) (\<lambda>h. Uf 0 h 0) S)"
    by (rule mk4_eqI) (rule res)
  have e_st: "CS N = spec_state Kf Vf (\<lambda>b. W (bc Bw b)) S L"
    by (simp add: CS_def L_def)
  show ?thesis unfolding run e_out e_st ..
qed

subsection \<open>Tensors of the documented shapes\<close>

lemma documented_mk4:
  assumes "documented_shapes r k v w u kv_state B H L K V Bw"
  shows "r = mk4 B H L K (comp4 r)" "k = mk4 B H L K (comp4 k)" "v = mk4 B H L V (comp4 v)"
    "w = mk4 Bw H L K (comp4 w)" "u = mk4 1 H 1 K (comp4 u)"
    "kv_state = mk4 B H K V (comp4 kv_state)" "Bw = B \<or> Bw = 1"
  using assms tensor_as_mk4 unfolding documented_shapes_def comp4_eta[symmetric] by blast+

lemma clamp_mk4:
  "clamp m (mk4 a b c d F) = mk4 a b c d (\<lambda>i0 i1 i2 i3. max m (F i0 i1 i2 i3))"
  by (simp add: clamp_def unop_mk4)


lemma rwkv_inner_chunked:
  assumes doc: "documented_shapes r k v w u kv_state B H L K V Bw"
    and L: "0 < L" and T: "even T" "0 < T" "T dvd L"
    and pd: "p = Float32 \<or> p = Float64"
  shows "rwkv_inner r k v w u kv_state (int T) p
     = Inr (mk4 B H L V
              (spec_out K (comp4 r) (comp4 k) (comp4 v)
                 (\<lambda>b h t i. max (precision_min_val p) (comp4 w (bc Bw b) h t i))
                 (\<lambda>h. comp4 u 0 h 0) (comp4 kv_state)),
            mk4 B H K V
              (spec_state (comp4 k) (comp4 v)
                 (\<lambda>b h t i. max (precision_min_val p) (comp4 w (bc Bw b) h t i))
                 (comp4 kv_state) L))"
proof -
  obtain T2 where T2: "T = 2 * T2" using T(1) by (auto elim: evenE)
  then have T2pos: "0 < T2" using T(2) by simp
  obtain N where N: "L = N * T" using T(3) by (auto simp: dvd_def mult.commute)
  then have Npos: "0 < N" using L by (cases N) auto
  note m = documented_mk4[OF doc]
  have "rwkv_inner (mk4 B H L K (comp4 r)) (mk4 B H L K (comp4 k)) (mk4 B H L V (comp4 v))
      (mk4 Bw H L K (comp4 w)) (mk4 1 H 1 K (comp4 u)) (mk4 B H K V (comp4 kv_state)) (int T) p
     = Inr (mk4 B H L V
              (spec_out K (comp4 r) (comp4 k) (comp4 v)
                 (\<lambda>b h t i. max (precision_min_val p) (comp4 w (bc Bw b) h t i))
                 (\<lambda>h. comp4 u 0 h 0) (comp4 kv_state)),
            mk4 B H K V
              (spec_state (comp4 k) (comp4 v)
                 (\<lambda>b h t i. max (precision_min_val p) (comp4 w (bc Bw b) h t i))
                 (comp4 kv_state) L))"
    unfolding N T2 by (rule rwkv_inner_chunked_mk4[OF m(7) T2pos Npos pd])
  then show ?thesis using m(1-6) by simp
qed

lemma rwkv5_1_recurrent_clamped:
  assumes doc: "documented_shapes r k v w u kv_state B H L K V Bw" and L: "0 < L"
  shows "rwkv5_1_recurrent r k v (clamp m w) u kv_state
     = Inr (mk4 B H L V
              (spec_out K (comp4 r) (comp4 k) (comp4 v)
                 (\<lambda>b h t i. max m (comp4 w (bc Bw b) h t i))
                 (\<lambda>h. comp4 u 0 h 0) (comp4 kv_state)),
            mk4 B H K V
              (spec_state (comp4 k) (comp4 v)
                 (\<lambda>b h t i. max m (comp4 w (bc Bw b) h t i))
                 (comp4 kv_state) L))"
proof -
  note d = documented_mk4[OF doc]
  have c: "clamp m w = mk4 Bw H L K (\<lambda>b h t i. max m (comp4 w b h t i))"
    using d(4) clamp_mk4[of m Bw H L K "comp4 w"] by simp
  have "rwkv5_1_recurrent (mk4 B H L K (comp4 r)) (mk4 B H L K (comp4 k)) (mk4 B H L V (comp4 v))
      (mk4 Bw H L K (\<lambda>b h t i. max m (comp4 w b h t i))) (mk4 1 H 1 K (comp4 u))
      (mk4 B H K V (comp4 kv_state))
     = Inr (mk4 B H L V
              (spec_out K (comp4 r) (comp4 k) (comp4 v)
                 (\<lambda>b h t i. max m (comp4 w (bc Bw b) h t i))
                 (\<lambda>h. comp4 u 0 h 0) (comp4 kv_state)),
            mk4 B H K V
              (spec_state (comp4 k) (comp4 v)
                 (\<lambda>b h t i. max m (comp4 w (bc Bw b) h t i))
                 (comp4 kv_state) L))"
    using rwkv5_1_recurrent_mk4[OF d(7) L, of H K "comp4 r" "comp4 k" V "comp4 v"
        "\<lambda>b h t i. max m (comp4 w b h t i)" "comp4 u" "comp4 kv_state"]
    by simp
  then show ?thesis unfolding c using d(1,2,3,5,6) by simp
qed

lemma rwkv_inner_eq_recurrent:
  assumes doc: "documented_shapes r k v w u kv_state B H L K V Bw"
    and L: "0 < L" and T: "even T" "0 < T" "T dvd L"
    and pd: "p = Float32 \<or> p = Float64"
  shows "rwkv_inner r k v w u kv_state (int T) p
     = rwkv5_1_recurrent r k v (clamp (precision_min_val p) w) u kv_state"
  unfolding rwkv_inner_chunked[OF doc L T pd] rwkv5_1_recurrent_clamped[OF doc L] ..


subsection \<open>The single-step path on tensors given by their components\<close>



subsection \<open>The chunked engine on two consecutive segments\<close>


subsection \<open>What the chunked path reads of the receptance\<close>

lemma rwkv_inner_reads_r_through_view:
  assumes "dims k = [B, H, L, K]" and "L \<noteq> 1"
    and "elems r' = elems r" and "prod_list (dims r') = prod_list (dims r)"
  shows "rwkv_inner r' k v w u kv_state chunk_len p = rwkv_inner r k v w u kv_state chunk_len p"
proof -
  have v: "view r' = view r" by (auto simp: fun_eq_iff view_def Let_def assms(3,4))
  have L: "(L = 1) = False" using assms(2) by simp
  show ?thesis unfolding rwkv_inner_def assms(1) list.case L if_False v ..
qed


lemmas tensor_eval =
  size_end_def size_first_def matmul_def bmm_def Let_def bnd_def binop_def mul_def add_def
  sub_def bshape_def bidx_def mk_def elt_def unop_def clamp_def view_def mT_def
  swap_last2_def py_mod_def py_floordiv_def slice_end_def py_slice_def cat2_def
  cumsum2_def sum2_keepdim_def unbind3_def getitem_def stack2_def log_t_def exp_t_def
  zeros_like_def unsqueeze_def

section \<open>The single-step path\<close>

text \<open>
  Claim C3.  For a sequence of length 1 the chunked engine is meant to be the single
  step \<open>out = r @ (kv_state + u * (k\<^sup>T @ v))\<close>,
  \<open>kv_state' = w * kv_state + k\<^sup>T @ v\<close> of the reference engine.  The source
  multiplies \<^verbatim>\<open>k @ v\<close> without transposing \<open>k\<close>, so with a key dimension of 2
  the product of a 1x2 and a 1x1 matrix is refused, while the reference engine returns
  on the same input.
\<close>

theorem rwkv_inner_single_step_key_dim_2:
  "rwkv_inner \<lparr>dims = [1, 1, 1, 2], elems = [1, 2]\<rparr> \<lparr>dims = [1, 1, 1, 2], elems = [1, 2]\<rparr>
     \<lparr>dims = [1, 1, 1, 1], elems = [3]\<rparr> \<lparr>dims = [1, 1, 1, 2], elems = [1, 1]\<rparr>
     \<lparr>dims = [1, 1, 1, 2], elems = [0, 0]\<rparr> \<lparr>dims = [1, 1, 2, 1], elems = [0, 0]\<rparr>
     32 Float32 = Inl RuntimeError
   \<and> rwkv5_1_recurrent \<lparr>dims = [1, 1, 1, 2], elems = [1, 2]\<rparr>
     \<lparr>dims = [1, 1, 1, 2], elems = [1, 2]\<rparr> \<lparr>dims = [1, 1, 1, 1], elems = [3]\<rparr>
     \<lparr>dims = [1, 1, 1, 2], elems = [1, 1]\<rparr> \<lparr>dims = [1, 1, 1, 2], elems = [0, 0]\<rparr>
     \<lparr>dims = [1, 1, 2, 1], elems = [0, 0]\<rparr>
     = Inr (\<lparr>dims = [1, 1, 1, 1], elems = [0]\<rparr>, \<lparr>dims = [1, 1, 2, 1], elems = [3, 6]\<rparr>)"
proof
  show "rwkv_inner \<lparr>dims = [1, 1, 1, 2], elems = [1, 2]\<rparr> \<lparr>dims = [1, 1, 1, 2], elems = [1, 2]\<rparr>
     \<lparr>dims = [1, 1, 1, 1], elems = [3]\<rparr> \<lparr>dims = [1, 1, 1, 2], elems = [1, 1]\<rparr>
     \<lparr>dims = [1, 1, 1, 2], elems = [0, 0]\<rparr> \<lparr>dims = [1, 1, 2, 1], elems = [0, 0]\<rparr>
     32 Float32 = Inl RuntimeError"
    by (simp add: rwkv_inner_def tensor_eval)
  show "rwkv5_1_recurrent \<lparr>dims = [1, 1, 1, 2], elems = [1, 2]\<rparr>
     \<lparr>dims = [1, 1, 1, 2], elems = [1, 2]\<rparr> \<lparr>dims = [1, 1, 1, 1], elems = [3]\<rparr>
     \<lparr>dims = [1, 1, 1, 2], elems = [1, 1]\<rparr> \<lparr>dims = [1, 1, 1, 2], elems = [0, 0]\<rparr>
     \<lparr>dims = [1, 1, 2, 1], elems = [0, 0]\<rparr>
     = Inr (\<lparr>dims = [1, 1, 1, 1], elems = [0]\<rparr>, \<lparr>dims = [1, 1, 2, 1], elems = [3, 6]\<rparr>)"
    by code_simp
qed

section \<open>Chunk lengths that do not divide the sequence\<close>

text \<open>
  Claim C4.  When the chunk length does not divide the sequence length the source sets
  \<open>T = 1\<close> and goes on.  The halves of a chunk then have length \<open>T // 2 = 0\<close>, and
  the view of the cumulated decay as \<open>(B, H, N, 2, 0, K)\<close> is refused: with a sequence of
  length 3 and a chunk length of 2 the call raises instead of returning.
\<close>

theorem rwkv_inner_fallback_raises:
  "rwkv_inner \<lparr>dims = [1, 1, 3, 1], elems = [1, 2, 3]\<rparr> \<lparr>dims = [1, 1, 3, 1], elems = [1, 2, 3]\<rparr>
     \<lparr>dims = [1, 1, 3, 1], elems = [3, 4, 5]\<rparr> \<lparr>dims = [1, 1, 3, 1], elems = [1, 1, 1]\<rparr>
     \<lparr>dims = [1, 1, 1, 1], elems = [0]\<rparr> \<lparr>dims = [1, 1, 1, 1], elems = [0]\<rparr>
     2 Float32 = Inl RuntimeError"
  by (simp add: rwkv_inner_def tensor_eval)

text \<open>
  Claim C10.  For a sequence longer than one step and a decay tensor that has at least one
  element, a call whose effective chunk length is odd returns no result: the chunk length
  is odd itself, or it does not divide the sequence length and is replaced by 1.  The view
  of the cumulated decay as two halves of length \<open>T // 2\<close> per chunk needs
  \<open>2 * (T // 2) = T\<close>.  (A chunk length of 0 and a negative chunk length raise as
  well.)
\<close>

theorem rwkv_inner_odd_chunk_raises:
  assumes "dims k = [B, H, L, K]" and "1 < L" and "prod_list (dims w) \<noteq> 0"
    and "int L mod chunk_len \<noteq> 0 \<or> odd chunk_len"
  shows "\<exists>e. rwkv_inner r k v w u kv_state chunk_len precision_dtype = Inl e"
  using odd_chunk_raises[OF assms, of r v u kv_state precision_dtype]
  by (cases "rwkv_inner r k v w u kv_state chunk_len precision_dtype") auto

theorem rwkv_inner_odd_chunk_raises_witness:
  "dims \<lparr>dims = [1, 1, 6, 1], elems = [1, 2, 3, 4, 5, 6]\<rparr> = [1, 1, 6, 1] \<and> (1::nat) < 6
   \<and> prod_list (dims \<lparr>dims = [1, 1, 6, 1], elems = [1, 1, 1, 1, 1, 1]\<rparr>) \<noteq> 0
   \<and> odd (3::int)
   \<and> (\<exists>e. rwkv_inner \<lparr>dims = [1, 1, 6, 1], elems = [1, 2, 3, 4, 5, 6]\<rparr>
         \<lparr>dims = [1, 1, 6, 1], elems = [1, 2, 3, 4, 5, 6]\<rparr>
         \<lparr>dims = [1, 1, 6, 1], elems = [1, 2, 3, 4, 5, 6]\<rparr>
         \<lparr>dims = [1, 1, 6, 1], elems = [1, 1, 1, 1, 1, 1]\<rparr>
         \<lparr>dims = [1, 1, 1, 1], elems = [0]\<rparr> \<lparr>dims = [1, 1, 1, 1], elems = [0]\<rparr>
         3 Float32 = Inl e)"
  using rwkv_inner_odd_chunk_raises[of "\<lparr>dims = [1, 1, 6, 1], elems = [1, 2, 3, 4, 5, 6]\<rparr>" 1 1 6 1
      "\<lparr>dims = [1, 1, 6, 1], elems = [1, 1, 1, 1, 1, 1]\<rparr>" 3
      "\<lparr>dims = [1, 1, 6, 1], elems = [1, 2, 3, 4, 5, 6]\<rparr>"
      "\<lparr>dims = [1, 1, 6, 1], elems = [1, 2, 3, 4, 5, 6]\<rparr>"
      "\<lparr>dims = [1, 1, 1, 1], elems = [0]\<rparr>" "\<lparr>dims = [1, 1, 1, 1], elems = [0]\<rparr>" Float32]
  by simp

section \<open>The reference engine\<close>

text \<open>
  Claim C2.  For tensors of the documented shapes, \<open>r\<close> and \<open>k\<close> of shape
  \<open>(B, H, L, K)\<close>, \<open>v\<close> of shape \<open>(B, H, L, V)\<close>, \<open>w\<close> of shape \<open>(B, H, L, K)\<close>
  or \<open>(1, H, L, K)\<close>, \<open>u\<close> of shape \<open>(1, H, 1, K)\<close> and \<open>kv_state\<close> of shape
  \<open>(B, H, K, V)\<close>, and at least one time step, the reference engine returns the outputs
  \<open>out[t] = r[t] @ (kv_state + u \<odot> kv_t)\<close> of the recurrence
  \<open>kv_t = k[t]\<^sup>T @ v[t]\<close>, \<open>kv_state = w[t] \<odot> kv_state + kv_t\<close>, stacked along
  the time axis, and the state after the last step.
\<close>

theorem rwkv5_1_recurrent_computes_recurrence:
  assumes "wf r" "wf k" "wf v" "wf w" "wf u" "wf kv_state"
    and "dims r = [B, H, L, K]" "dims k = [B, H, L, K]" "dims v = [B, H, L, V]"
    and "dims w = [Bw, H, L, K]" "Bw = B \<or> Bw = 1"
    and "dims u = [1, H, 1, K]" "dims kv_state = [B, H, K, V]"
    and "0 < L"
  shows "rwkv5_1_recurrent r k v w u kv_state
    = Inr (mk4 B H L V
             (spec_out K (comp4 r) (comp4 k) (comp4 v) (\<lambda>b. comp4 w (bc Bw b))
                (\<lambda>h. comp4 u 0 h 0) (comp4 kv_state)),
           mk4 B H K V
             (spec_state (comp4 k) (comp4 v) (\<lambda>b. comp4 w (bc Bw b)) (comp4 kv_state) L))"
proof -
  have "rwkv5_1_recurrent (mk4 B H L K (comp4 r)) (mk4 B H L K (comp4 k)) (mk4 B H L V (comp4 v))
      (mk4 Bw H L K (comp4 w)) (mk4 1 H 1 K (comp4 u)) (mk4 B H K V (comp4 kv_state))
    = Inr (mk4 B H L V
             (spec_out K (comp4 r) (comp4 k) (comp4 v) (\<lambda>b. comp4 w (bc Bw b))
                (\<lambda>h. comp4 u 0 h 0) (comp4 kv_state)),
           mk4 B H K V
             (spec_state (comp4 k) (comp4 v) (\<lambda>b. comp4 w (bc Bw b)) (comp4 kv_state) L))"
    using rwkv5_1_recurrent_mk4[OF assms(11,14)] by simp
  moreover have "mk4 B H L K (comp4 r) = r" "mk4 B H L K (comp4 k) = k" "mk4 B H L V (comp4 v) = v"
    "mk4 Bw H L K (comp4 w) = w" "mk4 1 H 1 K (comp4 u) = u" "mk4 B H K V (comp4 kv_state) = kv_state"
    using assms tensor_as_mk4 by (simp_all add: comp4_eta[symmetric])
  ultimately show ?thesis by simp
qed

theorem rwkv5_1_recurrent_computes_recurrence_witness:
  "rwkv5_1_recurrent \<lparr>dims = [1, 1, 2, 2], elems = [1, 2, 3, 4]\<rparr>
     \<lparr>dims = [1, 1, 2, 2], elems = [1, 2, 3, 5]\<rparr> \<lparr>dims = [1, 1, 2, 1], elems = [3, 4]\<rparr>
     \<lparr>dims = [1, 1, 2, 2], elems = [1, 1, 1 / 2, 1 / 2]\<rparr> \<lparr>dims = [1, 1, 1, 2], elems = [1, 2]\<rparr>
     \<lparr>dims = [1, 1, 2, 1], elems = [1, 2]\<rparr>
   = Inr (mk4 1 1 2 1
            (spec_out 2 (comp4 \<lparr>dims = [1, 1, 2, 2], elems = [1, 2, 3, 4]\<rparr>)
               (comp4 \<lparr>dims = [1, 1, 2, 2], elems = [1, 2, 3, 5]\<rparr>)
               (comp4 \<lparr>dims = [1, 1, 2, 1], elems = [3, 4]\<rparr>)
               (\<lambda>b. comp4 \<lparr>dims = [1, 1, 2, 2], elems = [1, 1, 1 / 2, 1 / 2]\<rparr> (bc 1 b))
               (\<lambda>h. comp4 \<lparr>dims = [1, 1, 1, 2], elems = [1, 2]\<rparr> 0 h 0)
               (comp4 \<lparr>dims = [1, 1, 2, 1], elems = [1, 2]\<rparr>)),
          mk4 1 1 2 1
            (spec_state (comp4 \<lparr>dims = [1, 1, 2, 2], elems = [1, 2, 3, 5]\<rparr>)
               (comp4 \<lparr>dims = [1, 1, 2, 1], elems = [3, 4]\<rparr>)
               (\<lambda>b. comp4 \<lparr>dims = [1, 1, 2, 2], elems = [1, 1, 1 / 2, 1 / 2]\<rparr> (bc 1 b))
               (comp4 \<lparr>dims = [1, 1, 2, 1], elems = [1, 2]\<rparr>) 2))
   \<and> mk4 1 1 2 1
            (spec_state (comp4 \<lparr>dims = [1, 1, 2, 2], elems = [1, 2, 3, 5]\<rparr>)
               (comp4 \<lparr>dims = [1, 1, 2, 1], elems = [3, 4]\<rparr>)
               (\<lambda>b. comp4 \<lparr>dims = [1, 1, 2, 2], elems = [1, 1, 1 / 2, 1 / 2]\<rparr> (bc 1 b))
               (comp4 \<lparr>dims = [1, 1, 2, 1], elems = [1, 2]\<rparr>) 2)
       = \<lparr>dims = [1, 1, 2, 1], elems = [14, 24]\<rparr>"
proof
  show "rwkv5_1_recurrent \<lparr>dims = [1, 1, 2, 2], elems = [1, 2, 3, 4]\<rparr>
     \<lparr>dims = [1, 1, 2, 2], elems = [1, 2, 3, 5]\<rparr> \<lparr>dims = [1, 1, 2, 1], elems = [3, 4]\<rparr>
     \<lparr>dims = [1, 1, 2, 2], elems = [1, 1, 1 / 2, 1 / 2]\<rparr> \<lparr>dims = [1, 1, 1, 2], elems = [1, 2]\<rparr>
     \<lparr>dims = [1, 1, 2, 1], elems = [1, 2]\<rparr>
   = Inr (mk4 1 1 2 1
            (spec_out 2 (comp4 \<lparr>dims = [1, 1, 2, 2], elems = [1, 2, 3, 4]\<rparr>)
               (comp4 \<lparr>dims = [1, 1, 2, 2], elems = [1, 2, 3, 5]\<rparr>)
               (comp4 \<lparr>dims = [1, 1, 2, 1], elems = [3, 4]\<rparr>)
               (\<lambda>b. comp4 \<lparr>dims = [1, 1, 2, 2], elems = [1, 1, 1 / 2, 1 / 2]\<rparr> (bc 1 b))
               (\<lambda>h. comp4 \<lparr>dims = [1, 1, 1, 2], elems = [1, 2]\<rparr> 0 h 0)
               (comp4 \<lparr>dims = [1, 1, 2, 1], elems = [1, 2]\<rparr>)),
          mk4 1 1 2 1
            (spec_state (comp4 \<lparr>dims = [1, 1, 2, 2], elems = [1, 2, 3, 5]\<rparr>)
               (comp4 \<lparr>dims = [1, 1, 2, 1], elems = [3, 4]\<rparr>)
               (\<lambda>b. comp4 \<lparr>dims = [1, 1, 2, 2], elems = [1, 1, 1 / 2, 1 / 2]\<rparr> (bc 1 b))
               (comp4 \<lparr>dims = [1, 1, 2, 1], elems = [1, 2]\<rparr>) 2))"
    by (rule rwkv5_1_recurrent_computes_recurrence) (simp_all add: wf_def)
  show "mk4 1 1 2 1
            (spec_state (comp4 \<lparr>dims = [1, 1, 2, 2], elems = [1, 2, 3, 5]\<rparr>)
               (comp4 \<lparr>dims = [1, 1, 2, 1], elems = [3, 4]\<rparr>)
               (\<lambda>b. comp4 \<lparr>dims = [1, 1, 2, 2], elems = [1, 1, 1 / 2, 1 / 2]\<rparr> (bc 1 b))
               (comp4 \<lparr>dims = [1, 1, 2, 1], elems = [1, 2]\<rparr>) 2)
       = \<lparr>dims = [1, 1, 2, 1], elems = [14, 24]\<rparr>"
    by code_simp
qed

section \<open>The chunked engine against the reference engine\<close>







section \<open>The floor of the decay\<close>






section \<open>Two consecutive segments\<close>




section \<open>Calls that break the contract\<close>

text \<open>
  Claim C9 says that a call with mismatched shapes or a chunk length that is not positive
  fails before anything is computed and never returns a wrong result.  The source checks
  nothing at its entry, and it returns on each of these calls.  With a sequence of length
  1 the chunk length is never read, so a chunk length of 0 is accepted; \<open>v\<close> with two
  heads against \<open>k\<close> with one is broadcast, and the result has two heads; \<open>r\<close> with
  a key dimension of 2 against \<open>k\<close> with a key dimension of 1 is multiplied with a state
  of matching size.  With a sequence of length 2, \<open>r\<close> of shape \<open>(1, 2, 2, 1)\<close>
  against \<open>k\<close> of shape \<open>(1, 1, 2, 2)\<close> has as many elements as \<open>k\<close>, so the view
  of \<open>r\<close> as chunks, the only thing that reads \<open>r\<close>, accepts it.
\<close>

theorem rwkv_inner_returns_on_contract_violations:
  "rwkv_inner \<lparr>dims = [1, 1, 1, 1], elems = [2]\<rparr> \<lparr>dims = [1, 1, 1, 1], elems = [3]\<rparr>
     \<lparr>dims = [1, 1, 1, 1], elems = [5]\<rparr> \<lparr>dims = [1, 1, 1, 1], elems = [1]\<rparr>
     \<lparr>dims = [1, 1, 1, 1], elems = [0]\<rparr> \<lparr>dims = [1, 1, 1, 1], elems = [0]\<rparr> 0 Float32
   = Inr (\<lparr>dims = [1, 1, 1, 1], elems = [0]\<rparr>, \<lparr>dims = [1, 1, 1, 1], elems = [15]\<rparr>)
   \<and> rwkv_inner \<lparr>dims = [1, 1, 1, 1], elems = [2]\<rparr> \<lparr>dims = [1, 1, 1, 1], elems = [3]\<rparr>
     \<lparr>dims = [1, 2, 1, 1], elems = [5, 7]\<rparr> \<lparr>dims = [1, 1, 1, 1], elems = [1]\<rparr>
     \<lparr>dims = [1, 1, 1, 1], elems = [0]\<rparr> \<lparr>dims = [1, 1, 1, 1], elems = [1]\<rparr> 32 Float32
   = Inr (\<lparr>dims = [1, 2, 1, 1], elems = [2, 2]\<rparr>, \<lparr>dims = [1, 2, 1, 1], elems = [16, 22]\<rparr>)
   \<and> rwkv_inner \<lparr>dims = [1, 1, 1, 2], elems = [1, 2]\<rparr> \<lparr>dims = [1, 1, 1, 1], elems = [3]\<rparr>
     \<lparr>dims = [1, 1, 1, 1], elems = [5]\<rparr> \<lparr>dims = [1, 1, 1, 1], elems = [1]\<rparr>
     \<lparr>dims = [1, 1, 1, 1], elems = [0]\<rparr> \<lparr>dims = [1, 1, 2, 1], elems = [1, 1]\<rparr> 32 Float32
   = Inr (\<lparr>dims = [1, 1, 1, 1], elems = [3]\<rparr>, \<lparr>dims = [1, 1, 2, 1], elems = [16, 16]\<rparr>)
   \<and> rwkv_inner \<lparr>dims = [1, 2, 2, 1], elems = [1, 2, 3, 4]\<rparr>
     \<lparr>dims = [1, 1, 2, 2], elems = [1, 2, 3, 5]\<rparr> \<lparr>dims = [1, 1, 2, 1], elems = [3, 4]\<rparr>
     \<lparr>dims = [1, 1, 2, 2], elems = [1, 1, 1 / 2, 1 / 2]\<rparr> \<lparr>dims = [1, 1, 1, 2], elems = [1, 2]\<rparr>
     \<lparr>dims = [1, 1, 2, 1], elems = [1, 2]\<rparr> 2 Float32
   = Inr (\<lparr>dims = [1, 1, 2, 1], elems = [32, 240]\<rparr>, \<lparr>dims = [1, 1, 2, 1], elems = [14, 24]\<rparr>)"
proof (intro conjI)
  show "rwkv_inner \<lparr>dims = [1, 1, 1, 1], elems = [2]\<rparr> \<lparr>dims = [1, 1, 1, 1], elems = [3]\<rparr>
     \<lparr>dims = [1, 1, 1, 1], elems = [5]\<rparr> \<lparr>dims = [1, 1, 1, 1], elems = [1]\<rparr>
     \<lparr>dims = [1, 1, 1, 1], elems = [0]\<rparr> \<lparr>dims = [1, 1, 1, 1], elems = [0]\<rparr> 0 Float32
   = Inr (\<lparr>dims = [1, 1, 1, 1], elems = [0]\<rparr>, \<lparr>dims = [1, 1, 1, 1], elems = [15]\<rparr>)"
    by (simp add: rwkv_inner_def tensor_eval)
  show "rwkv_inner \<lparr>dims = [1, 1, 1, 1], elems = [2]\<rparr> \<lparr>dims = [1, 1, 1, 1], elems = [3]\<rparr>
     \<lparr>dims = [1, 2, 1, 1], elems = [5, 7]\<rparr> \<lparr>dims = [1, 1, 1, 1], elems = [1]\<rparr>
     \<lparr>dims = [1, 1, 1, 1], elems = [0]\<rparr> \<lparr>dims = [1, 1, 1, 1], elems = [1]\<rparr> 32 Float32
   = Inr (\<lparr>dims = [1, 2, 1, 1], elems = [2, 2]\<rparr>, \<lparr>dims = [1, 2, 1, 1], elems = [16, 22]\<rparr>)"
    by (simp add: rwkv_inner_def tensor_eval) (simp add: upt_conv_Cons)
  show "rwkv_inner \<lparr>dims = [1, 1, 1, 2], elems = [1, 2]\<rparr> \<lparr>dims = [1, 1, 1, 1], elems = [3]\<rparr>
     \<lparr>dims = [1, 1, 1, 1], elems = [5]\<rparr> \<lparr>dims = [1, 1, 1, 1], elems = [1]\<rparr>
     \<lparr>dims = [1, 1, 1, 1], elems = [0]\<rparr> \<lparr>dims = [1, 1, 2, 1], elems = [1, 1]\<rparr> 32 Float32
   = Inr (\<lparr>dims = [1, 1, 1, 1], elems = [3]\<rparr>, \<lparr>dims = [1, 1, 2, 1], elems = [16, 16]\<rparr>)"
    by (simp add: rwkv_inner_def tensor_eval) (simp add: upt_conv_Cons)
  have doc: "documented_shapes \<lparr>dims = [1, 1, 2, 2], elems = [1, 2, 3, 4]\<rparr>
     \<lparr>dims = [1, 1, 2, 2], elems = [1, 2, 3, 5]\<rparr> \<lparr>dims = [1, 1, 2, 1], elems = [3, 4]\<rparr>
     \<lparr>dims = [1, 1, 2, 2], elems = [1, 1, 1 / 2, 1 / 2]\<rparr> \<lparr>dims = [1, 1, 1, 2], elems = [1, 2]\<rparr>
     \<lparr>dims = [1, 1, 2, 1], elems = [1, 2]\<rparr> 1 1 2 2 1 1"
    by (simp add: documented_shapes_def wf_def)
  have t: "0 < (2::nat)" "even (2::nat)" "0 < (2::nat)" "(2::nat) dvd 2"
    "Float32 = Float32 \<or> Float32 = Float64"
    by simp_all
  have e: "rwkv5_1_recurrent \<lparr>dims = [1, 1, 2, 2], elems = [1, 2, 3, 4]\<rparr>
     \<lparr>dims = [1, 1, 2, 2], elems = [1, 2, 3, 5]\<rparr> \<lparr>dims = [1, 1, 2, 1], elems = [3, 4]\<rparr>
     (clamp (precision_min_val Float32) \<lparr>dims = [1, 1, 2, 2], elems = [1, 1, 1 / 2, 1 / 2]\<rparr>)
     \<lparr>dims = [1, 1, 1, 2], elems = [1, 2]\<rparr> \<lparr>dims = [1, 1, 2, 1], elems = [1, 2]\<rparr>
   = Inr (\<lparr>dims = [1, 1, 2, 1], elems = [32, 240]\<rparr>, \<lparr>dims = [1, 1, 2, 1], elems = [14, 24]\<rparr>)"
    by code_simp
  have v: "rwkv_inner \<lparr>dims = [1, 2, 2, 1], elems = [1, 2, 3, 4]\<rparr>
     \<lparr>dims = [1, 1, 2, 2], elems = [1, 2, 3, 5]\<rparr> \<lparr>dims = [1, 1, 2, 1], elems = [3, 4]\<rparr>
     \<lparr>dims = [1, 1, 2, 2], elems = [1, 1, 1 / 2, 1 / 2]\<rparr> \<lparr>dims = [1, 1, 1, 2], elems = [1, 2]\<rparr>
     \<lparr>dims = [1, 1, 2, 1], elems = [1, 2]\<rparr> 2 Float32
   = rwkv_inner \<lparr>dims = [1, 1, 2, 2], elems = [1, 2, 3, 4]\<rparr>
     \<lparr>dims = [1, 1, 2, 2], elems = [1, 2, 3, 5]\<rparr> \<lparr>dims = [1, 1, 2, 1], elems = [3, 4]\<rparr>
     \<lparr>dims = [1, 1, 2, 2], elems = [1, 1, 1 / 2, 1 / 2]\<rparr> \<lparr>dims = [1, 1, 1, 2], elems = [1, 2]\<rparr>
     \<lparr>dims = [1, 1, 2, 1], elems = [1, 2]\<rparr> 2 Float32"
    by (rule rwkv_inner_reads_r_through_view[of _ 1 1 2 2]) simp_all
  show "rwkv_inner \<lparr>dims = [1, 2, 2, 1], elems = [1, 2, 3, 4]\<rparr>
     \<lparr>dims = [1, 1, 2, 2], elems = [1, 2, 3, 5]\<rparr> \<lparr>dims = [1, 1, 2, 1], elems = [3, 4]\<rparr>
     \<lparr>dims = [1, 1, 2, 2], elems = [1, 1, 1 / 2, 1 / 2]\<rparr> \<lparr>dims = [1, 1, 1, 2], elems = [1, 2]\<rparr>
     \<lparr>dims = [1, 1, 2, 1], elems = [1, 2]\<rparr> 2 Float32
   = Inr (\<lparr>dims = [1, 1, 2, 1], elems = [32, 240]\<rparr>, \<lparr>dims = [1, 1, 2, 1], elems = [14, 24]\<rparr>)"
    unfolding v using rwkv_inner_eq_recurrent[OF doc t] e by simp
qed

text \<open>
  Claim C9 as amended.  Let \<open>k\<close> have the shape \<open>(B, H, L, K)\<close> with a sequence longer
  than one step.  The call returns no result in each of these cases: the chunk length is 0
  (the remainder \<open>L % T\<close> raises); the chunk length is negative and divides the sequence
  length (the view of the decay as chunks has a negative size); \<open>r\<close> has the shape
  \<open>(B, H, L, Kr)\<close> with a key dimension \<open>Kr\<close> other than \<open>K\<close>, and \<open>B\<close> and
  \<open>H\<close> are not 0; \<open>v\<close> has the shape \<open>(B, Hv, L, V)\<close> with a head count \<open>Hv\<close>
  other than \<open>H\<close>, and \<open>B\<close> and \<open>V\<close> are not 0; \<open>u\<close> has the shape
  \<open>(1, Hu, 1, K)\<close> with a head count \<open>Hu\<close> other than \<open>H\<close>, and \<open>K\<close> is not 0.
  In the last three cases the view of \<open>r\<close>, \<open>v\<close> or \<open>u\<close> that meets the mismatch
  raises.  Nothing is said of a sequence of length 1, nor of tensors of other shapes.
\<close>

theorem rwkv_inner_contract_violations_raise:
  assumes "dims k = [B, H, L, K]" and "1 < L"
    and "chunk_len = 0
       \<or> (chunk_len < 0 \<and> int L mod chunk_len = 0)
       \<or> (dims r = [B, H, L, Kr] \<and> Kr \<noteq> K \<and> B * H \<noteq> 0)
       \<or> (dims v = [B, Hv, L, V] \<and> Hv \<noteq> H \<and> B * V \<noteq> 0)
       \<or> (dims u = [1, Hu, 1, K] \<and> Hu \<noteq> H \<and> K \<noteq> 0)"
  shows "\<exists>e. rwkv_inner r k v w u kv_state chunk_len precision_dtype = Inl e"
  using contract_violation_raises[OF assms, of w kv_state precision_dtype]
  by (cases "rwkv_inner r k v w u kv_state chunk_len precision_dtype") auto

theorem rwkv_inner_contract_violations_raise_witness:
  "(\<exists>e. rwkv_inner \<lparr>dims = [1, 1, 2, 1], elems = [1, 2]\<rparr> \<lparr>dims = [1, 1, 2, 1], elems = [1, 2]\<rparr>
       \<lparr>dims = [1, 1, 2, 1], elems = [3, 4]\<rparr> \<lparr>dims = [1, 1, 2, 1], elems = [1, 1]\<rparr>
       \<lparr>dims = [1, 1, 1, 1], elems = [0]\<rparr> \<lparr>dims = [1, 1, 1, 1], elems = [7]\<rparr> 0 Float32 = Inl e)
   \<and> (\<exists>e. rwkv_inner \<lparr>dims = [1, 1, 2, 1], elems = [1, 2]\<rparr> \<lparr>dims = [1, 1, 2, 1], elems = [1, 2]\<rparr>
       \<lparr>dims = [1, 1, 2, 1], elems = [3, 4]\<rparr> \<lparr>dims = [1, 1, 2, 1], elems = [1, 1]\<rparr>
       \<lparr>dims = [1, 1, 1, 1], elems = [0]\<rparr> \<lparr>dims = [1, 1, 1, 1], elems = [7]\<rparr> (- 2) Float32 = Inl e)
   \<and> (\<exists>e. rwkv_inner \<lparr>dims = [1, 1, 2, 3], elems = [1, 2, 3, 4, 5, 6]\<rparr>
       \<lparr>dims = [1, 1, 2, 1], elems = [1, 2]\<rparr>
       \<lparr>dims = [1, 1, 2, 1], elems = [3, 4]\<rparr> \<lparr>dims = [1, 1, 2, 1], elems = [1, 1]\<rparr>
       \<lparr>dims = [1, 1, 1, 1], elems = [0]\<rparr> \<lparr>dims = [1, 1, 1, 1], elems = [7]\<rparr> 2 Float32 = Inl e)
   \<and> (\<exists>e. rwkv_inner \<lparr>dims = [1, 1, 2, 1], elems = [1, 2]\<rparr> \<lparr>dims = [1, 1, 2, 1], elems = [1, 2]\<rparr>
       \<lparr>dims = [1, 2, 2, 1], elems = [3, 4, 5, 6]\<rparr> \<lparr>dims = [1, 1, 2, 1], elems = [1, 1]\<rparr>
       \<lparr>dims = [1, 1, 1, 1], elems = [0]\<rparr> \<lparr>dims = [1, 1, 1, 1], elems = [7]\<rparr> 2 Float32 = Inl e)
   \<and> (\<exists>e. rwkv_inner \<lparr>dims = [1, 1, 2, 1], elems = [1, 2]\<rparr> \<lparr>dims = [1, 1, 2, 1], elems = [1, 2]\<rparr>
       \<lparr>dims = [1, 1, 2, 1], elems = [3, 4]\<rparr> \<lparr>dims = [1, 1, 2, 1], elems = [1, 1]\<rparr>
       \<lparr>dims = [1, 2, 1, 1], elems = [0, 0]\<rparr> \<lparr>dims = [1, 1, 1, 1], elems = [7]\<rparr> 2 Float32 = Inl e)"
proof (intro conjI)
  have h1: "dims \<lparr>dims = [1, 1, 2, 1], elems = [1, 2 :: real]\<rparr> = [1, 1, 2, 1]" by simp
  have h2: "(1::nat) < 2" by simp
  show "\<exists>e. rwkv_inner \<lparr>dims = [1, 1, 2, 1], elems = [1, 2]\<rparr> \<lparr>dims = [1, 1, 2, 1], elems = [1, 2]\<rparr>
       \<lparr>dims = [1, 1, 2, 1], elems = [3, 4]\<rparr> \<lparr>dims = [1, 1, 2, 1], elems = [1, 1]\<rparr>
       \<lparr>dims = [1, 1, 1, 1], elems = [0]\<rparr> \<lparr>dims = [1, 1, 1, 1], elems = [7]\<rparr> 0 Float32 = Inl e"
    by (rule rwkv_inner_contract_violations_raise[OF h1 h2]) simp
  show "\<exists>e. rwkv_inner \<lparr>dims = [1, 1, 2, 1], elems = [1, 2]\<rparr> \<lparr>dims = [1, 1, 2, 1], elems = [1, 2]\<rparr>
       \<lparr>dims = [1, 1, 2, 1], elems = [3, 4]\<rparr> \<lparr>dims = [1, 1, 2, 1], elems = [1, 1]\<rparr>
       \<lparr>dims = [1, 1, 1, 1], elems = [0]\<rparr> \<lparr>dims = [1, 1, 1, 1], elems = [7]\<rparr> (- 2) Float32 = Inl e"
    by (rule rwkv_inner_contract_violations_raise[OF h1 h2]) simp
  show "\<exists>e. rwkv_inner \<lparr>dims = [1, 1, 2, 3], elems = [1, 2, 3, 4, 5, 6]\<rparr>
       \<lparr>dims = [1, 1, 2, 1], elems = [1, 2]\<rparr>
       \<lparr>dims = [1, 1, 2, 1], elems = [3, 4]\<rparr> \<lparr>dims = [1, 1, 2, 1], elems = [1, 1]\<rparr>
       \<lparr>dims = [1, 1, 1, 1], elems = [0]\<rparr> \<lparr>dims = [1, 1, 1, 1], elems = [7]\<rparr> 2 Float32 = Inl e"
    by (rule rwkv_inner_contract_violations_raise[OF h1 h2, where Kr = 3]) simp
  show "\<exists>e. rwkv_inner \<lparr>dims = [1, 1, 2, 1], elems = [1, 2]\<rparr> \<lparr>dims = [1, 1, 2, 1], elems = [1, 2]\<rparr>
       \<lparr>dims = [1, 2, 2, 1], elems = [3, 4, 5, 6]\<rparr> \<lparr>dims = [1, 1, 2, 1], elems = [1, 1]\<rparr>
       \<lparr>dims = [1, 1, 1, 1], elems = [0]\<rparr> \<lparr>dims = [1, 1, 1, 1], elems = [7]\<rparr> 2 Float32 = Inl e"
    by (rule rwkv_inner_contract_violations_raise[OF h1 h2, where Hv = 2 and V = 1]) simp
  show "\<exists>e. rwkv_inner \<lparr>dims = [1, 1, 2, 1], elems = [1, 2]\<rparr> \<lparr>dims = [1, 1, 2, 1], elems = [1, 2]\<rparr>
       \<lparr>dims = [1, 1, 2, 1], elems = [3, 4]\<rparr> \<lparr>dims = [1, 1, 2, 1], elems = [1, 1]\<rparr>
       \<lparr>dims = [1, 2, 1, 1], elems = [0, 0]\<rparr> \<lparr>dims = [1, 1, 1, 1], elems = [7]\<rparr> 2 Float32 = Inl e"
    by (rule rwkv_inner_contract_violations_raise[OF h1 h2, where Hu = 2]) simp
qed

end
